theory Spec2Isabelle
  imports Complex_Main
begin

section \<open>Data model\<close>

subsection \<open>JSON values\<close>

text \<open>
  The settings live in one JSON document under the key \<open>tabExtensionSettings\<close> of
  \<open>chrome.storage.local\<close>. A JavaScript object is an association list in property
  order; \<open>map_of\<close> reads a property and \<open>assign\<close> is the assignment \<open>obj[k] = v\<close>
  (an existing property keeps its position, a new one is appended). Numbers in the
  document are only stored and compared, never computed with, so they are the rational
  value of their literal. A string is the UTF-8 byte sequence of its text.
\<close>

datatype json =
    JNull
  | JBool bool
  | JNum rat
  | JStr string
  | JArr "json list"
  | JObj "(string \<times> json) list"

type_synonym object = "(string \<times> json) list"

text \<open>
  What the code throws. \<open>StorageError msg\<close> is the \<open>Error\<close> made from
  \<open>chrome.runtime.lastError.message\<close>. \<open>TypeError\<close> is what strict-mode code (every
  class body is strict) raises when it assigns a property on a primitive value.
  \<open>ArrayTarget\<close> marks the one case of \<open>deepMerge\<close> that leaves the JSON data model: the
  merge target is an array and the source an object with properties, so that JavaScript
  adds named properties to the array object itself. The other five are the \<open>Error\<close>s
  of the engine registry, named after their messages: name or URL empty, URL without
  the \<open>%s\<close> placeholder, id already present, engine not found, and a reordering whose
  length differs from the list's.
\<close>

datatype error =
    StorageError string
  | TypeError
  | ArrayTarget
  | NameOrUrlEmpty
  | UrlWithoutPlaceholder
  | IdExists
  | EngineNotFound string
  | CountMismatch

fun truthy :: "json \<Rightarrow> bool" where
  "truthy JNull = False"
| "truthy (JBool b) = b"
| "truthy (JNum n) = (n \<noteq> 0)"
| "truthy (JStr s) = (s \<noteq> [])"
| "truthy (JArr xs) = True"
| "truthy (JObj kvs) = True"

text \<open>\<open>typeof v === 'object'\<close>: true of null, arrays and objects.\<close>

fun typeof_object :: "json \<Rightarrow> bool" where
  "typeof_object JNull = True"
| "typeof_object (JArr xs) = True"
| "typeof_object (JObj kvs) = True"
| "typeof_object _ = False"

fun isArray :: "json \<Rightarrow> bool" where
  "isArray (JArr xs) = True"
| "isArray _ = False"

fun is_object :: "json \<Rightarrow> bool" where
  "is_object (JObj kvs) = True"
| "is_object _ = False"

text \<open>The properties a \<open>for (const key in source)\<close> loop visits, in order.\<close>

fun keys_of :: "json \<Rightarrow> object" where
  "keys_of (JObj kvs) = kvs"
| "keys_of _ = []"

fun assign :: "string \<Rightarrow> 'v \<Rightarrow> (string \<times> 'v) list \<Rightarrow> (string \<times> 'v) list" where
  "assign k v [] = [(k, v)]"
| "assign k v ((k', v') # kvs) =
     (if k' = k then (k, v) # kvs else (k', v') # assign k v kvs)"

text \<open>
  Object spread \<open>{...acc, ...src}\<close>: every own property of \<open>src\<close> is defined on the
  object built so far, in order.
\<close>

fun spread :: "(string \<times> 'v) list \<Rightarrow> (string \<times> 'v) list \<Rightarrow> (string \<times> 'v) list" where
  "spread acc [] = acc"
| "spread acc ((k, v) # src) = spread (assign k v acc) src"

fun get_path :: "json \<Rightarrow> string list \<Rightarrow> json option" where
  "get_path j [] = Some j"
| "get_path (JObj kvs) (k # ks) =
     (case map_of kvs k of None \<Rightarrow> None | Some v \<Rightarrow> get_path v ks)"
| "get_path _ (k # ks) = None"

subsection \<open>The settings document and its defaults\<close>

text \<open>
  A settings document maps category names to category objects. Every write of the
  stored document goes through \<open>set\<close>, with the defaults or with a document built by
  \<open>updateCategory\<close>, so each stored category is an object.
\<close>

type_synonym document = "(string \<times> object) list"

datatype category = General | Wallpaper | Engines | Theme

fun category_key :: "category \<Rightarrow> string" where
  "category_key General = ''general''"
| "category_key Wallpaper = ''wallpaper''"
| "category_key Engines = ''engines''"
| "category_key Theme = ''theme''"

definition document_json :: "document \<Rightarrow> object" where
  "document_json d = map (\<lambda>(k, props). (k, JObj props)) d"

definition engine_json :: "string \<Rightarrow> string \<Rightarrow> string \<Rightarrow> string \<Rightarrow> json" where
  "engine_json i n u ic =
     JObj [(''id'', JStr i), (''name'', JStr n), (''url'', JStr u), (''icon'', JStr ic)]"

text \<open>The name of the third default engine is the two-character word U+767E U+5EA6.\<close>

definition baidu_name :: string where
  "baidu_name = [CHR 0xE7, CHR 0x99, CHR 0xBE, CHR 0xE5, CHR 0xBA, CHR 0xA6]"

definition defaultSettings :: document where
  "defaultSettings =
     [(''general'',
        [(''searchWidth'', JNum 40),
         (''searchHeight'', JNum 7),
         (''searchRadius'', JNum 30),
         (''searchOpacity'', JNum (8 / 10)),
         (''openIn'', JStr ''new-tab''),
         (''tabSwitch'', JBool True)]),
      (''wallpaper'',
        [(''imageUrl'', JStr ''assets/images/default.png''),
         (''blur'', JNum 0),
         (''overlayOpacity'', JNum (3 / 10))]),
      (''engines'',
        [(''default'', JStr ''google''),
         (''list'', JArr
            [engine_json ''google'' ''Google'' ''https://www.google.com/search?q=%s''
               ''assets/icons/google.ico'',
             engine_json ''bing'' ''Bing'' ''https://www.bing.com/search?q=%s''
               ''assets/icons/bing.ico'',
             engine_json ''baidu'' baidu_name ''https://www.baidu.com/s?wd=%s''
               ''assets/icons/baidu.ico'',
             engine_json ''duckduckgo'' ''DuckDuckGo'' ''https://duckduckgo.com/?q=%s''
               ''assets/icons/duckduckgo.ico''])]),
      (''theme'',
        [(''mode'', JStr ''system'')])]"

section \<open>StorageManager\<close>

subsection \<open>The merge with the defaults\<close>

lemma size_keys_of_less:
  "size_list (size_prod (\<lambda>_. 0) size) (keys_of v) < Suc (Suc (size v + n))"
  by (cases v) simp_all

text \<open>
  \<open>deepMerge(target, source)\<close> mutates \<open>target\<close>; the model returns the mutated target.
  The loop over the keys of \<open>source\<close> is the recursion over the list. A source value
  that is a non-array object is merged into \<open>target[key] || {}\<close>; any other value is
  assigned. The first assignment on a primitive target raises \<open>TypeError\<close>.
\<close>

function (sequential) deepMerge :: "json \<Rightarrow> object \<Rightarrow> error + json" where
  "deepMerge target [] = Inr target"
| "deepMerge (JObj tprops) ((key, v) # source) =
     (if truthy v \<and> typeof_object v \<and> \<not> isArray v then
        (let t = (case map_of tprops key of
                    Some tv \<Rightarrow> if truthy tv then tv else JObj []
                  | None \<Rightarrow> JObj [])
         in case deepMerge t (keys_of v) of
              Inl e \<Rightarrow> Inl e
            | Inr t' \<Rightarrow> deepMerge (JObj (assign key t' tprops)) source)
      else deepMerge (JObj (assign key v tprops)) source)"
| "deepMerge (JArr xs) (kv # source) = Inl ArrayTarget"
| "deepMerge target (kv # source) = Inl TypeError"
  by pat_completeness auto
termination
  by (relation "measure (\<lambda>(t, s). size_list (size_prod (\<lambda>_. 0) size) s)")
    (simp_all add: size_keys_of_less)

text \<open>
  \<open>JSON.parse(JSON.stringify(this.defaultSettings))\<close> is a fresh copy of the defaults,
  which hold JSON values only.
\<close>

definition mergeWithDefaults :: "object \<Rightarrow> error + json" where
  "mergeWithDefaults data = deepMerge (JObj (document_json defaultSettings)) data"

subsection \<open>Reading and writing the store\<close>

text \<open>
  \<open>stored\<close> is the value under the storage key (\<open>None\<close> is \<open>undefined\<close>: nothing
  stored). \<open>getError\<close> and \<open>setError\<close> are \<open>chrome.runtime.lastError\<close> as the callback
  of the next read and of the next write finds it.
\<close>

record chrome_storage =
  stored :: "document option"
  getError :: "string option"
  setError :: "string option"

definition get :: "chrome_storage \<Rightarrow> error + document option" where
  "get cs = (case getError cs of Some msg \<Rightarrow> Inl (StorageError msg) | None \<Rightarrow> Inr (stored cs))"

definition set' :: "chrome_storage \<Rightarrow> document \<Rightarrow> error + chrome_storage" where
  "set' cs settings =
     (case setError cs of
        Some msg \<Rightarrow> Inl (StorageError msg)
      | None \<Rightarrow> Inr (cs\<lparr>stored := Some settings\<rparr>))"

text \<open>
  \<open>init\<close> returns the settings and catches every error. A stored document is an
  object and so truthy: \<open>!data\<close> holds only when nothing is stored.
\<close>

definition init :: "chrome_storage \<Rightarrow> json \<times> chrome_storage" where
  "init cs =
     (case get cs of
        Inl e \<Rightarrow> (JObj (document_json defaultSettings), cs)
      | Inr None \<Rightarrow>
          (case set' cs defaultSettings of
             Inl e \<Rightarrow> (JObj (document_json defaultSettings), cs)
           | Inr cs' \<Rightarrow> (JObj (document_json defaultSettings), cs'))
      | Inr (Some data) \<Rightarrow>
          (case mergeWithDefaults (document_json data) of
             Inl e \<Rightarrow> (JObj (document_json defaultSettings), cs)
           | Inr merged \<Rightarrow> (merged, cs)))"

text \<open>The result \<open>None\<close> is \<open>undefined\<close>.\<close>

definition getCategory :: "chrome_storage \<Rightarrow> category \<Rightarrow> object option" where
  "getCategory cs category =
     (case get cs of
        Inl e \<Rightarrow> map_of defaultSettings (category_key category)
      | Inr None \<Rightarrow> map_of defaultSettings (category_key category)
      | Inr (Some allSettings) \<Rightarrow> map_of allSettings (category_key category))"

text \<open>
  \<open>{...allSettings, [category]: {...allSettings[category], ...updates}}\<close>: the copy of
  an object has its properties in its order, so spreading into a fresh literal is the
  list itself; the properties of \<open>updates\<close> are then set on the copy of the category
  (of nothing when it is \<open>undefined\<close>) and the result is assigned to the category key.
\<close>

definition updateCategory ::
  "chrome_storage \<Rightarrow> category \<Rightarrow> object \<Rightarrow> error + chrome_storage" where
  "updateCategory cs category updates =
     (case get cs of
        Inl e \<Rightarrow> Inl e
      | Inr r \<Rightarrow>
          (let allSettings = (case r of None \<Rightarrow> [] | Some d \<Rightarrow> d);
               old = (case map_of allSettings (category_key category) of
                        None \<Rightarrow> [] | Some props \<Rightarrow> props);
               updatedSettings =
                 assign (category_key category) (spread old updates) allSettings
           in set' cs updatedSettings))"

section \<open>Strings\<close>

fun startsWith :: "string \<Rightarrow> string \<Rightarrow> bool" where
  "startsWith s [] = True"
| "startsWith [] (p # ps) = False"
| "startsWith (c # cs) (p # ps) = (c = p \<and> startsWith cs ps)"

text \<open>\<open>s.includes(sub)\<close>.\<close>

fun includes' :: "string \<Rightarrow> string \<Rightarrow> bool" where
  "includes' [] sub = (sub = [])"
| "includes' (c # cs) sub = (startsWith (c # cs) sub \<or> includes' cs sub)"

text \<open>
  The text before and the text after the first occurrence of \<open>pat\<close> in \<open>s\<close>, as
  \<open>String.prototype.replace\<close> with a string pattern finds it.
\<close>

fun split_first :: "string \<Rightarrow> string \<Rightarrow> (string \<times> string) option" where
  "split_first [] pat = (if pat = [] then Some ([], []) else None)"
| "split_first (c # cs) pat =
     (if startsWith (c # cs) pat then Some ([], drop (length pat) (c # cs))
      else case split_first cs pat of
             None \<Rightarrow> None
           | Some (preceding, following) \<Rightarrow> Some (c # preceding, following))"

text \<open>
  The replacement text of \<open>replace\<close> is a template: \<open>$$\<close> stands for a dollar sign,
  \<open>$&\<close> for the matched text, \<open>$`\<close> for the text before the match and \<open>$'\<close> for the
  text after it. A string pattern has no capture groups, so a dollar sign preceding any
  other character stands for itself.
\<close>

fun getSubstitution :: "string \<Rightarrow> string \<Rightarrow> string \<Rightarrow> string \<Rightarrow> string" where
  "getSubstitution matched preceding following [] = []"
| "getSubstitution matched preceding following [c] = [c]"
| "getSubstitution matched preceding following (c # d # rest) =
     (if c = CHR ''$'' \<and> d = CHR ''$'' then
        CHR ''$'' # getSubstitution matched preceding following rest
      else if c = CHR ''$'' \<and> d = CHR ''&'' then
        matched @ getSubstitution matched preceding following rest
      else if c = CHR ''$'' \<and> d = CHR 0x60 then
        preceding @ getSubstitution matched preceding following rest
      else if c = CHR ''$'' \<and> d = CHR 0x27 then
        following @ getSubstitution matched preceding following rest
      else c # getSubstitution matched preceding following (d # rest))"

definition replace :: "string \<Rightarrow> string \<Rightarrow> string \<Rightarrow> string" where
  "replace s pat replacement =
     (case split_first s pat of
        None \<Rightarrow> s
      | Some (preceding, following) \<Rightarrow>
          preceding @ getSubstitution pat preceding following replacement @ following)"

text \<open>
  \<open>encodeURIComponent\<close> keeps the unreserved characters and writes every other byte of
  the UTF-8 encoding as a percent sign and two upper-case hexadecimal digits. The
  text of a string is well-formed Unicode here; on a lone surrogate code unit, which
  has no UTF-8 encoding, JavaScript raises \<open>URIError\<close>.
\<close>

definition uriUnreserved :: string where
  "uriUnreserved =
     ''ABCDEFGHIJKLMNOPQRSTUVWXYZabcdefghijklmnopqrstuvwxyz0123456789-_.!~*()'' @ [CHR 0x27]"

definition hexDigit :: "nat \<Rightarrow> char" where
  "hexDigit n = ''0123456789ABCDEF'' ! n"

definition percent :: "char \<Rightarrow> string" where
  "percent c = [CHR ''%'', hexDigit (of_char c div 16), hexDigit (of_char c mod 16)]"

definition encodeURIComponent :: "string \<Rightarrow> string" where
  "encodeURIComponent s =
     concat (map (\<lambda>c. if c \<in> set uriUnreserved then [c] else percent c) s)"

text \<open>
  \<open>trim\<close> removes white space and line terminators from both ends: the characters
  U+0009 to U+000D, U+0020, U+00A0, U+1680, U+2000 to U+200A, U+2028, U+2029, U+202F,
  U+205F, U+3000 and U+FEFF, here in UTF-8.
\<close>

definition white_space :: "string list" where
  "white_space =
     [[CHR 0x09], [CHR 0x0A], [CHR 0x0B], [CHR 0x0C], [CHR 0x0D], [CHR 0x20],
      [CHR 0xC2, CHR 0xA0],
      [CHR 0xE1, CHR 0x9A, CHR 0x80],
      [CHR 0xE2, CHR 0x80, CHR 0x80], [CHR 0xE2, CHR 0x80, CHR 0x81],
      [CHR 0xE2, CHR 0x80, CHR 0x82], [CHR 0xE2, CHR 0x80, CHR 0x83],
      [CHR 0xE2, CHR 0x80, CHR 0x84], [CHR 0xE2, CHR 0x80, CHR 0x85],
      [CHR 0xE2, CHR 0x80, CHR 0x86], [CHR 0xE2, CHR 0x80, CHR 0x87],
      [CHR 0xE2, CHR 0x80, CHR 0x88], [CHR 0xE2, CHR 0x80, CHR 0x89],
      [CHR 0xE2, CHR 0x80, CHR 0x8A],
      [CHR 0xE2, CHR 0x80, CHR 0xA8], [CHR 0xE2, CHR 0x80, CHR 0xA9],
      [CHR 0xE2, CHR 0x80, CHR 0xAF],
      [CHR 0xE2, CHR 0x81, CHR 0x9F],
      [CHR 0xE3, CHR 0x80, CHR 0x80],
      [CHR 0xEF, CHR 0xBB, CHR 0xBF]]"

fun strip_one :: "string list \<Rightarrow> string \<Rightarrow> string option" where
  "strip_one [] s = None"
| "strip_one (w # ws) s =
     (if w \<noteq> [] \<and> startsWith s w then Some (drop (length w) s) else strip_one ws s)"

lemma strip_one_shorter: "strip_one ws s = Some s' \<Longrightarrow> length s' < length s"
proof (induction ws)
  case Nil
  then show ?case by simp
next
  case (Cons w ws)
  show ?case
  proof (cases "w \<noteq> [] \<and> startsWith s w")
    case True
    then have "s \<noteq> []" by (cases s; cases w) simp_all
    then show ?thesis using Cons.prems True by auto
  next
    case False
    then show ?thesis using Cons by auto
  qed
qed

function strip_leading :: "string list \<Rightarrow> string \<Rightarrow> string" where
  "strip_leading ws s =
     (case strip_one ws s of None \<Rightarrow> s | Some s' \<Rightarrow> strip_leading ws s')"
  by pat_completeness auto
termination
  by (relation "measure (\<lambda>(ws, s). length s)") (simp_all add: strip_one_shorter)

declare strip_leading.simps [simp del]

definition trim :: "string \<Rightarrow> string" where
  "trim s = rev (strip_leading (map rev white_space) (rev (strip_leading white_space s)))"

text \<open>The decimal digits of a number, as a template literal writes it.\<close>

function decimal :: "nat \<Rightarrow> string" where
  "decimal n =
     (if n < 10 then [''0123456789'' ! n]
      else decimal (n div 10) @ [''0123456789'' ! (n mod 10)])"
  by pat_completeness auto
termination
  by (relation "measure id") simp_all

declare decimal.simps [simp del]

section \<open>Engines: the engine registry\<close>

record engine =
  id' :: string
  name :: string
  url :: string
  icon :: string

record engines_module =
  engines :: "engine list"
  defaultEngineId :: string

definition engine_to_json :: "engine \<Rightarrow> json" where
  "engine_to_json e = engine_json (id' e) (name e) (url e) (icon e)"

text \<open>\<open>this.engines[i]\<close>: \<open>None\<close> is \<open>undefined\<close>, the value out of range.\<close>

definition nth_opt :: "'a list \<Rightarrow> nat \<Rightarrow> 'a option" where
  "nth_opt xs i = (if i < length xs then Some (xs ! i) else None)"

text \<open>\<open>Array.prototype.findIndex\<close>: \<open>None\<close> is the result \<open>-1\<close>.\<close>

fun findIndex :: "('a \<Rightarrow> bool) \<Rightarrow> 'a list \<Rightarrow> nat option" where
  "findIndex P [] = None"
| "findIndex P (x # xs) = (if P x then Some 0 else map_option Suc (findIndex P xs))"

definition getEngine :: "engines_module \<Rightarrow> string \<Rightarrow> engine option" where
  "getEngine st engineId = find (\<lambda>engine. id' engine = engineId) (engines st)"



text \<open>
  The argument of \<open>addEngine\<close> is an engine object whose properties may be missing; a
  missing property and the empty string are both falsy and the code only tests them
  for that, so a missing property is the empty string here. \<open>now\<close> is \<open>Date.now()\<close>.
\<close>

definition addEngine ::
  "nat \<Rightarrow> chrome_storage \<Rightarrow> engines_module \<Rightarrow> engine \<Rightarrow>
     (error + engine) \<times> engines_module \<times> chrome_storage" where
  "addEngine now cs st engine =
     (if name engine = [] \<or> url engine = [] then (Inl NameOrUrlEmpty, st, cs)
      else if \<not> includes' (url engine) ''%s'' then (Inl UrlWithoutPlaceholder, st, cs)
      else
        (let i = (if id' engine \<noteq> [] then id' engine else ''custom_'' @ decimal now) in
         if getEngine st i \<noteq> None then (Inl IdExists, st, cs)
         else
           (let newEngine =
                  \<lparr>id' = i, name = name engine, url = url engine,
                   icon = (if icon engine \<noteq> [] then icon engine
                           else ''assets/ui/search.svg'')\<rparr>;
                st1 = st\<lparr>engines := engines st @ [newEngine]\<rparr>
            in case updateCategory cs Engines
                      [(''list'', JArr (map engine_to_json (engines st1)))] of
                 Inr cs' \<Rightarrow> (Inr newEngine, st1, cs')
               | Inl e \<Rightarrow> (Inl e, st1\<lparr>engines := butlast (engines st1)\<rparr>, cs))))"

text \<open>
  \<open>updates\<close> is an object of new property values; \<open>{...oldEngine, ...updates}\<close> sets
  them on a copy of the engine, a later one over an earlier one.
\<close>

definition set_property :: "string \<Rightarrow> string \<Rightarrow> engine \<Rightarrow> engine" where
  "set_property k v e =
     (if k = ''id'' then e\<lparr>id' := v\<rparr>
      else if k = ''name'' then e\<lparr>name := v\<rparr>
      else if k = ''url'' then e\<lparr>url := v\<rparr>
      else if k = ''icon'' then e\<lparr>icon := v\<rparr>
      else e)"

fun spread_engine :: "engine \<Rightarrow> (string \<times> string) list \<Rightarrow> engine" where
  "spread_engine e [] = e"
| "spread_engine e ((k, v) # updates) = spread_engine (set_property k v e) updates"

definition updateEngine ::
  "chrome_storage \<Rightarrow> engines_module \<Rightarrow> string \<Rightarrow> (string \<times> string) list \<Rightarrow>
     (error + engine) \<times> engines_module \<times> chrome_storage" where
  "updateEngine cs st engineId updates =
     (case findIndex (\<lambda>engine. id' engine = engineId) (engines st) of
        None \<Rightarrow> (Inl (EngineNotFound engineId), st, cs)
      | Some index \<Rightarrow>
          (if (case map_of updates ''url'' of
                 Some u \<Rightarrow> u \<noteq> [] \<and> \<not> includes' u ''%s''
               | None \<Rightarrow> False)
           then (Inl UrlWithoutPlaceholder, st, cs)
           else
             (let oldEngine = engines st ! index;
                  updatedEngine = spread_engine oldEngine updates;
                  st1 = st\<lparr>engines := (engines st)[index := updatedEngine]\<rparr>
              in case updateCategory cs Engines
                        [(''list'', JArr (map engine_to_json (engines st1)))] of
                   Inr cs' \<Rightarrow> (Inr updatedEngine, st1, cs')
                 | Inl e \<Rightarrow>
                     (Inl e, st1\<lparr>engines := (engines st1)[index := oldEngine]\<rparr>, cs))))"

text \<open>
  \<open>splice(index, 1)\<close> removes the element at \<open>index\<close>; the rollback
  \<open>splice(index, 0, deletedEngine)\<close> inserts it there again.
\<close>

definition deleteEngine ::
  "chrome_storage \<Rightarrow> engines_module \<Rightarrow> string \<Rightarrow>
     (error + engine) \<times> engines_module \<times> chrome_storage" where
  "deleteEngine cs st engineId =
     (case findIndex (\<lambda>engine. id' engine = engineId) (engines st) of
        None \<Rightarrow> (Inl (EngineNotFound engineId), st, cs)
      | Some index \<Rightarrow>
          (let deletedEngine = engines st ! index;
               st1 = st\<lparr>engines := take index (engines st) @ drop (Suc index) (engines st)\<rparr>;
               st2 = (if defaultEngineId st1 = engineId \<and> length (engines st1) > 0
                      then st1\<lparr>defaultEngineId := id' (engines st1 ! 0)\<rparr> else st1)
           in case updateCategory cs Engines
                     [(''list'', JArr (map engine_to_json (engines st2))),
                      (''default'', JStr (defaultEngineId st2))] of
                Inr cs' \<Rightarrow> (Inr deletedEngine, st2, cs')
              | Inl e \<Rightarrow>
                  (Inl e,
                   st2\<lparr>engines :=
                         take index (engines st2) @ deletedEngine # drop index (engines st2)\<rparr>,
                   cs)))"

text \<open>The loop of \<open>reorderEngines\<close> that looks every id up and stops at an unknown one.\<close>

fun lookup_all :: "engines_module \<Rightarrow> string list \<Rightarrow> error + engine list" where
  "lookup_all st [] = Inr []"
| "lookup_all st (i # engineIds) =
     (case getEngine st i of
        None \<Rightarrow> Inl (EngineNotFound i)
      | Some engine \<Rightarrow>
          (case lookup_all st engineIds of
             Inl e \<Rightarrow> Inl e
           | Inr newEngines \<Rightarrow> Inr (engine # newEngines)))"

definition reorderEngines ::
  "chrome_storage \<Rightarrow> engines_module \<Rightarrow> string list \<Rightarrow>
     (error + unit) \<times> engines_module \<times> chrome_storage" where
  "reorderEngines cs st engineIds =
     (case lookup_all st engineIds of
        Inl e \<Rightarrow> (Inl e, st, cs)
      | Inr newEngines \<Rightarrow>
          (if length newEngines \<noteq> length (engines st) then (Inl CountMismatch, st, cs)
           else
             (let oldEngines = engines st;
                  st1 = st\<lparr>engines := newEngines\<rparr>
              in case updateCategory cs Engines
                        [(''list'', JArr (map engine_to_json (engines st1)))] of
                   Inr cs' \<Rightarrow> (Inr (), st1, cs')
                 | Inl e \<Rightarrow> (Inl e, st1\<lparr>engines := oldEngines\<rparr>, cs))))"

definition defaultEngines :: "engine list" where
  "defaultEngines =
     [\<lparr>id' = ''google'', name = ''Google'', url = ''https://www.google.com/search?q=%s'',
       icon = ''https://www.google.com/favicon.ico''\<rparr>,
      \<lparr>id' = ''bing'', name = ''Bing'', url = ''https://www.bing.com/search?q=%s'',
       icon = ''https://www.bing.com/favicon.ico''\<rparr>,
      \<lparr>id' = ''baidu'', name = baidu_name, url = ''https://www.baidu.com/s?wd=%s'',
       icon = ''https://www.baidu.com/favicon.ico''\<rparr>,
      \<lparr>id' = ''duckduckgo'', name = ''DuckDuckGo'', url = ''https://duckduckgo.com/?q=%s'',
       icon = ''https://duckduckgo.com/favicon.ico''\<rparr>]"

definition resetToDefaults ::
  "chrome_storage \<Rightarrow> engines_module \<Rightarrow> (error + unit) \<times> engines_module \<times> chrome_storage"
  where
  "resetToDefaults cs st =
     (let oldEngines = engines st;
          oldDefaultEngineId = defaultEngineId st;
          st1 = st\<lparr>engines := defaultEngines, defaultEngineId := ''google''\<rparr>
      in case updateCategory cs Engines
                [(''list'', JArr (map engine_to_json (engines st1))),
                 (''default'', JStr (defaultEngineId st1))] of
           Inr cs' \<Rightarrow> (Inr (), st1, cs')
         | Inl e \<Rightarrow>
             (Inl e, st1\<lparr>engines := oldEngines, defaultEngineId := oldDefaultEngineId\<rparr>, cs))"

section \<open>Search: cycling and dispatch\<close>

record search_module =
  engines' :: "engine list"
  currentEngineIndex :: nat
  tabSwitchEnabled :: bool
  openIn :: string

text \<open>
  \<open>saveDefaultEngine\<close> logs a failed write and goes on, so it returns the store only.
  \<open>updateEngineIcon\<close> changes the page alone and is left out.
\<close>

definition saveDefaultEngine :: "chrome_storage \<Rightarrow> search_module \<Rightarrow> chrome_storage" where
  "saveDefaultEngine cs s =
     (case nth_opt (engines' s) (currentEngineIndex s) of
        None \<Rightarrow> cs
      | Some currentEngine \<Rightarrow>
          (case updateCategory cs Engines [(''default'', JStr (id' currentEngine))] of
             Inr cs' \<Rightarrow> cs'
           | Inl e \<Rightarrow> cs))"

definition switchEngine ::
  "chrome_storage \<Rightarrow> search_module \<Rightarrow> search_module \<times> chrome_storage" where
  "switchEngine cs s =
     (if \<not> tabSwitchEnabled s \<or> length (engines' s) = 0 then (s, cs)
      else
        (let s1 = s\<lparr>currentEngineIndex :=
                       (currentEngineIndex s + 1) mod length (engines' s)\<rparr>
         in (s1, saveDefaultEngine cs s1)))"


text \<open>What \<open>performSearch\<close> does to the page, given the text of the input field.\<close>

datatype navigation = NoNavigation | Navigate string | OpenTab string

definition performSearch :: "search_module \<Rightarrow> string \<Rightarrow> navigation" where
  "performSearch s value =
     (let query = trim value in
      if query = [] then NoNavigation
      else case nth_opt (engines' s) (currentEngineIndex s) of
             None \<Rightarrow> NoNavigation
           | Some currentEngine \<Rightarrow>
               (let searchUrl = replace (url currentEngine) ''%s'' (encodeURIComponent query)
                in if openIn s = ''current-tab'' then Navigate searchUrl
                   else OpenTab searchUrl))"

section \<open>Settings: the engine list of the panel\<close>


text \<open>
  \<open>saveEngine\<close> reads the three input fields of the modal. With an empty name or URL
  or a URL without \<open>%s\<close> it shows an alert and returns. Otherwise it changes the list
  first (the engine being edited in place, or a new engine with a \<open>custom_\<close> id at the
  end) and then writes it; a failed write is caught and reported with an alert, the
  list staying changed.
\<close>

definition Settings_saveEngine ::
  "nat \<Rightarrow> chrome_storage \<Rightarrow> engine list \<Rightarrow> engine option \<Rightarrow> string \<Rightarrow> string \<Rightarrow> string \<Rightarrow>
     engine list \<times> chrome_storage" where
  "Settings_saveEngine now cs settings_engines editingEngine nameValue urlValue iconValue =
     (let n = trim nameValue; u = trim urlValue; ic = trim iconValue in
      if n = [] \<or> u = [] then (settings_engines, cs)
      else if \<not> includes' u ''%s'' then (settings_engines, cs)
      else
        (let es =
               (case editingEngine of
                  Some edited \<Rightarrow>
                    (case findIndex (\<lambda>e. id' e = id' edited) settings_engines of
                       Some index \<Rightarrow>
                         settings_engines
                           [index := (settings_engines ! index)
                              \<lparr>name := n, url := u,
                               icon := (if ic \<noteq> [] then ic
                                        else icon (settings_engines ! index))\<rparr>]
                     | None \<Rightarrow> settings_engines)
                | None \<Rightarrow>
                    settings_engines @
                      [\<lparr>id' = ''custom_'' @ decimal now, name = n, url = u,
                        icon = (if ic \<noteq> [] then ic else ''assets/ui/search.svg'')\<rparr>])
         in case updateCategory cs Engines [(''list'', JArr (map engine_to_json es))] of
              Inr cs' \<Rightarrow> (es, cs')
            | Inl e \<Rightarrow> (es, cs)))"


section \<open>App: the derived styles of the search box\<close>

subsection \<open>Numbers\<close>

text \<open>
  A JavaScript number is an IEEE 754 double: a finite value, an infinity or NaN. A
  finite double is its rational value; the sign of zero is not kept, since the code
  only writes the numbers into style texts, where both zeros read \<open>0\<close>. The result of
  an arithmetic operation is the exact result rounded to the nearest double, ties to
  the even significand: \<open>exponent x\<close> is the power of two at or below \<open>\<bar>x\<bar>\<close>, \<open>ulp x\<close>
  the distance between neighbouring doubles there (52 fraction bits, and exponent
  \<open>-1022\<close> for the subnormal range), and a result beyond the largest double is an
  infinity.
\<close>

datatype number = Finite rat | PosInfinity | NegInfinity | NaN

function bit_length :: "nat \<Rightarrow> nat" where
  "bit_length n = (if n = 0 then 0 else Suc (bit_length (n div 2)))"
  by pat_completeness auto
termination
  by (relation "measure id") simp_all

declare bit_length.simps [simp del]

definition exponent :: "rat \<Rightarrow> int" where
  "exponent x =
     (if 1 \<le> \<bar>x\<bar> then int (bit_length (nat \<lfloor>\<bar>x\<bar>\<rfloor>)) - 1
      else - int (bit_length (nat (\<lceil>1 / \<bar>x\<bar>\<rceil> - 1))))"

definition roundTiesToEven :: "rat \<Rightarrow> int" where
  "roundTiesToEven q =
     (let f = \<lfloor>q\<rfloor>; r = q - of_int f in
      if r < 1 / 2 then f
      else if 1 / 2 < r then f + 1
      else if even f then f else f + 1)"

definition ulp :: "rat \<Rightarrow> rat" where
  "ulp x = 2 powi (max (exponent x) (- 1022) - 52)"

definition nearest_double :: "rat \<Rightarrow> rat" where
  "nearest_double x = (if x = 0 then 0 else of_int (roundTiesToEven (x / ulp x)) * ulp x)"

text \<open>The number for a real value: of a decimal literal, or of an exact product.\<close>

definition to_number :: "rat \<Rightarrow> number" where
  "to_number x =
     (let r = nearest_double x in
      if r \<noteq> 0 \<and> 1024 \<le> exponent r
      then (if 0 < r then PosInfinity else NegInfinity)
      else Finite r)"

text \<open>The operator \<open>*\<close> on numbers.\<close>

fun multiply :: "number \<Rightarrow> number \<Rightarrow> number" where
  "multiply NaN y = NaN"
| "multiply x NaN = NaN"
| "multiply (Finite a) (Finite b) = to_number (a * b)"
| "multiply (Finite a) PosInfinity =
     (if a = 0 then NaN else if 0 < a then PosInfinity else NegInfinity)"
| "multiply (Finite a) NegInfinity =
     (if a = 0 then NaN else if 0 < a then NegInfinity else PosInfinity)"
| "multiply PosInfinity (Finite b) =
     (if b = 0 then NaN else if 0 < b then PosInfinity else NegInfinity)"
| "multiply NegInfinity (Finite b) =
     (if b = 0 then NaN else if 0 < b then NegInfinity else PosInfinity)"
| "multiply PosInfinity PosInfinity = PosInfinity"
| "multiply PosInfinity NegInfinity = NegInfinity"
| "multiply NegInfinity PosInfinity = NegInfinity"
| "multiply NegInfinity NegInfinity = PosInfinity"

text \<open>
  \<open>Math.round\<close>: the nearest integer, a tie going up. A finite double of magnitude
  \<open>2^52\<close> or more is an integer, so the result is a double.
\<close>

fun Math_round :: "number \<Rightarrow> number" where
  "Math_round (Finite x) = Finite (of_int \<lfloor>x + 1 / 2\<rfloor>)"
| "Math_round x = x"

subsection \<open>updateSearchHeight\<close>

text \<open>
  \<open>page_elements\<close> says which of the three elements \<open>document.getElementById\<close>
  finds. The result holds the numbers written into the styles, in pixels: the height
  of the container, the width and height of the icon, the horizontal margin of the
  icon and the font size of the input; \<open>None\<close> is a style left as it was. The
  literals \<open>0.4\<close>, \<open>0.3\<close> and \<open>0.32\<close> are the numbers for 2/5, 3/10 and 8/25.
\<close>

record page_elements =
  searchContainer :: bool
  searchEngineIcon :: bool
  searchInput :: bool

record search_styles =
  containerHeight :: "number option"
  iconSize :: "number option"
  iconMargin :: "number option"
  fontSize :: "number option"

definition updateSearchHeight :: "page_elements \<Rightarrow> number \<Rightarrow> search_styles" where
  "updateSearchHeight page height =
     (if searchContainer page then
        \<lparr>containerHeight = Some height,
         iconSize =
           (if searchEngineIcon page
            then Some (Math_round (multiply height (to_number (2 / 5)))) else None),
         iconMargin =
           (if searchEngineIcon page
            then Some (Math_round (multiply height (to_number (3 / 10)))) else None),
         fontSize =
           (if searchInput page
            then Some (Math_round (multiply height (to_number (8 / 25)))) else None)\<rparr>
      else \<lparr>containerHeight = None, iconSize = None, iconMargin = None, fontSize = None\<rparr>)"

section \<open>Predicates of the specification\<close>

text \<open>
  A partial persisted document of a schema: an object with distinct keys in which a
  key that the schema has as an object holds an object that is again partial for it,
  a key that the schema has as a scalar or an array holds a scalar or an array, and a
  key unknown to the schema holds any value (an object with distinct keys throughout).
\<close>

fun partial_document :: "object \<Rightarrow> object \<Rightarrow> bool" where
  "partial_document schema [] = True"
| "partial_document schema ((k, v) # d) =
     (k \<notin> fst ` set d \<and>
      (case (map_of schema k, v) of
         (None, JObj props) \<Rightarrow> partial_document [] props
       | (Some (JObj sprops), JObj props) \<Rightarrow> partial_document sprops props
       | (Some (JObj sprops), _) \<Rightarrow> False
       | (Some _, JObj props) \<Rightarrow> False
       | _ \<Rightarrow> True) \<and>
      partial_document schema d)"

text \<open>
  What a merge of \<open>source\<close> into the object \<open>tprops\<close> has to give: keys that the
  source does not name are untouched, every path of the target is still there, and
  every value of the source that is not an object is found at its path.
\<close>

definition merged_ok :: "object \<Rightarrow> object \<Rightarrow> object \<Rightarrow> bool" where
  "merged_ok tprops source m \<longleftrightarrow>
     (\<forall>k. k \<notin> fst ` set source \<longrightarrow> map_of m k = map_of tprops k) \<and>
     (\<forall>p. get_path (JObj tprops) p \<noteq> None \<longrightarrow> get_path (JObj m) p \<noteq> None) \<and>
     (\<forall>p v. get_path (JObj source) p = Some v \<longrightarrow> \<not> is_object v \<longrightarrow>
         get_path (JObj m) p = Some v)"










section \<open>Properties of the store\<close>

subsection \<open>The merge with the defaults\<close>

lemma map_of_assign: "map_of (assign k v al) = (map_of al)(k \<mapsto> v)"
  by (induction al) auto

lemma merge_cond_iff: "(truthy v \<and> typeof_object v \<and> \<not> isArray v) = is_object v"
  by (cases v) simp_all

lemma partial_document_cong:
  "(\<And>k. k \<in> fst ` set d \<Longrightarrow> map_of s1 k = map_of s2 k) \<Longrightarrow>
   partial_document s1 d = partial_document s2 d"
proof (induction d)
  case Nil
  show ?case by simp
next
  case (Cons kv d)
  obtain k v where kv: "kv = (k, v)" by (cases kv)
  have "map_of s1 k = map_of s2 k" using Cons.prems kv by simp
  moreover have "partial_document s1 d = partial_document s2 d"
    using Cons.IH Cons.prems by simp
  ultimately show ?case using kv by simp
qed

lemma partial_document_assign:
  "key \<notin> fst ` set d \<Longrightarrow> partial_document (assign key x s) d = partial_document s d"
  by (rule partial_document_cong) (auto simp: map_of_assign)

lemma get_path_leaf: "\<not> is_object j \<Longrightarrow> get_path j p \<noteq> None \<Longrightarrow> p = []"
  by (cases j; cases p) simp_all

lemma merged_ok_Nil: "merged_ok tprops [] tprops"
proof -
  have "\<And>p v. get_path (JObj []) p = Some v \<Longrightarrow> is_object v"
  proof -
    fix p v
    show "get_path (JObj []) p = Some v \<Longrightarrow> is_object v"
      by (cases p) auto
  qed
  then show ?thesis unfolding merged_ok_def by blast
qed

lemma merged_ok_leaf:
  assumes rest: "merged_ok (assign key v tp) source m"
    and fresh: "key \<notin> fst ` set source"
    and leaf: "\<not> is_object v"
    and shape: "\<And>tv. map_of tp key = Some tv \<Longrightarrow> \<not> is_object tv"
  shows "merged_ok tp ((key, v) # source) m"
proof -
  have mkey: "map_of m key = Some v"
    using rest fresh by (simp add: merged_ok_def map_of_assign)
  have q3: "\<forall>k. k \<notin> fst ` set ((key, v) # source) \<longrightarrow> map_of m k = map_of tp k"
    using rest by (auto simp: merged_ok_def map_of_assign)
  have q1: "get_path (JObj m) p \<noteq> None" if "get_path (JObj tp) p \<noteq> None" for p
  proof (cases p)
    case Nil
    then show ?thesis by simp
  next
    case (Cons k ks)
    show ?thesis
    proof (cases "k = key")
      case True
      from that Cons True obtain tv where tv: "map_of tp key = Some tv" "get_path tv ks \<noteq> None"
        by (auto split: option.splits)
      then have "ks = []" using shape get_path_leaf by blast
      then show ?thesis using Cons True mkey by simp
    next
      case False
      then have "get_path (JObj (assign key v tp)) p = get_path (JObj tp) p"
        using Cons by (simp add: map_of_assign)
      then show ?thesis using rest that by (simp add: merged_ok_def)
    qed
  qed
  have q2: "get_path (JObj m) p = Some w"
    if "get_path (JObj ((key, v) # source)) p = Some w" "\<not> is_object w" for p w
  proof (cases p)
    case Nil
    then show ?thesis using that by auto
  next
    case (Cons k ks)
    show ?thesis
    proof (cases "k = key")
      case True
      then show ?thesis using that Cons mkey by simp
    next
      case False
      then have "get_path (JObj source) p = Some w" using that Cons by simp
      then show ?thesis using rest that by (simp add: merged_ok_def)
    qed
  qed
  show ?thesis unfolding merged_ok_def using q1 q2 q3 by blast
qed

lemma merged_ok_object:
  assumes rest: "merged_ok (assign key (JObj tm) tp) source m"
    and nested: "merged_ok tobj props tm"
    and fresh: "key \<notin> fst ` set source"
    and shape: "\<And>tv. map_of tp key = Some tv \<Longrightarrow> tv = JObj tobj"
  shows "merged_ok tp ((key, JObj props) # source) m"
proof -
  have mkey: "map_of m key = Some (JObj tm)"
    using rest fresh by (simp add: merged_ok_def map_of_assign)
  have q3: "\<forall>k. k \<notin> fst ` set ((key, JObj props) # source) \<longrightarrow> map_of m k = map_of tp k"
    using rest by (auto simp: merged_ok_def map_of_assign)
  have q1: "get_path (JObj m) p \<noteq> None" if "get_path (JObj tp) p \<noteq> None" for p
  proof (cases p)
    case Nil
    then show ?thesis by simp
  next
    case (Cons k ks)
    show ?thesis
    proof (cases "k = key")
      case True
      from that Cons True obtain tv where tv: "map_of tp key = Some tv" "get_path tv ks \<noteq> None"
        by (auto split: option.splits)
      then have "get_path (JObj tobj) ks \<noteq> None" using shape by blast
      then have "get_path (JObj tm) ks \<noteq> None" using nested by (simp add: merged_ok_def)
      then show ?thesis using Cons True mkey by simp
    next
      case False
      then have "get_path (JObj (assign key (JObj tm) tp)) p = get_path (JObj tp) p"
        using Cons by (simp add: map_of_assign)
      then show ?thesis using rest that by (simp add: merged_ok_def)
    qed
  qed
  have q2: "get_path (JObj m) p = Some w"
    if "get_path (JObj ((key, JObj props) # source)) p = Some w" "\<not> is_object w" for p w
  proof (cases p)
    case Nil
    then show ?thesis using that by auto
  next
    case (Cons k ks)
    show ?thesis
    proof (cases "k = key")
      case True
      then have "get_path (JObj props) ks = Some w" using that Cons by simp
      then have "get_path (JObj tm) ks = Some w" using nested that by (simp add: merged_ok_def)
      then show ?thesis using True Cons mkey by simp
    next
      case False
      then have "get_path (JObj source) p = Some w" using that Cons by simp
      then show ?thesis using rest that by (simp add: merged_ok_def)
    qed
  qed
  show ?thesis unfolding merged_ok_def using q1 q2 q3 by blast
qed

lemma deepMerge_partial_document:
  "target = JObj tprops \<Longrightarrow> partial_document tprops source \<Longrightarrow>
   \<exists>m. deepMerge target source = Inr (JObj m) \<and> merged_ok tprops source m"
proof (induction target source arbitrary: tprops rule: deepMerge.induct)
  case (1 target)
  then show ?case by (simp add: merged_ok_Nil)
next
  case (2 tp key v source)
  from "2.prems" have tp: "tprops = tp" by simp
  from "2.prems" have fresh: "key \<notin> fst ` set source"
    and rest_pd: "partial_document tp source" by simp_all
  show ?case
  proof (cases "is_object v")
    case False
    then have cond: "\<not> (truthy v \<and> typeof_object v \<and> \<not> isArray v)"
      by (simp add: merge_cond_iff)
    have shape: "\<not> is_object tv" if "map_of tp key = Some tv" for tv
      using "2.prems" False that by (cases v; cases tv) simp_all
    have "partial_document (assign key v tp) source"
      using fresh rest_pd by (simp add: partial_document_assign)
    with "2.IH"(3) [OF cond refl] obtain m
      where m: "deepMerge (JObj (assign key v tp)) source = Inr (JObj m)"
        "merged_ok (assign key v tp) source m" by blast
    have "merged_ok tp ((key, v) # source) m"
      using merged_ok_leaf [OF m(2) fresh False] shape by blast
    moreover have "deepMerge (JObj tp) ((key, v) # source) =
        deepMerge (JObj (assign key v tp)) source"
      using False by (simp add: merge_cond_iff)
    ultimately show ?thesis using m(1) tp by simp
  next
    case True
    then obtain props where v: "v = JObj props" by (cases v) simp_all
    have cond: "truthy v \<and> typeof_object v \<and> \<not> isArray v"
      using True by (simp add: merge_cond_iff)
    define t where "t = (case map_of tp key of
                    Some tv \<Rightarrow> if truthy tv then tv else JObj []
                  | None \<Rightarrow> JObj [])"
    obtain tobj where tobj: "t = JObj tobj" "partial_document tobj props"
      "\<And>tv. map_of tp key = Some tv \<Longrightarrow> tv = JObj tobj"
    proof (cases "map_of tp key")
      case None
      then show ?thesis using that [of "[]"] "2.prems" v by (simp add: t_def)
    next
      case (Some tv)
      then show ?thesis using that "2.prems" v by (cases tv) (auto simp: t_def)
    qed
    from "2.IH"(1) [OF cond t_def tobj(1)] tobj(2) v obtain tm
      where tm: "deepMerge t props = Inr (JObj tm)" "merged_ok tobj props tm"
      by auto
    have "partial_document (assign key (JObj tm) tp) source"
      using fresh rest_pd by (simp add: partial_document_assign)
    with "2.IH"(2) [OF cond t_def _ refl, of "JObj tm"] tm(1) v obtain m
      where m: "deepMerge (JObj (assign key (JObj tm) tp)) source = Inr (JObj m)"
        "merged_ok (assign key (JObj tm) tp) source m" by auto
    have "merged_ok tp ((key, JObj props) # source) m"
      using merged_ok_object [OF m(2) tm(2) fresh] tobj(3) by blast
    moreover have "deepMerge (JObj tp) ((key, v) # source) = Inr (JObj m)"
      using True tm(1) m(1) v by (simp add: merge_cond_iff t_def [symmetric])
    ultimately show ?thesis using tp v by simp
  qed
qed simp_all

text \<open>
  C1. For every partial persisted document \<open>d\<close>, \<open>mergeWithDefaults d\<close> returns a
  document in which every key of the default schema is present, at every depth; every
  persisted value that is not an object (a scalar, or a leaf of a nested object) is
  found at its path in place of the default; and an array present in \<open>d\<close>, such as
  \<open>engines.list\<close>, is the array of the result as a whole.
\<close>

theorem mergeWithDefaults_partial_document:
  assumes "partial_document (document_json defaultSettings) d"
  shows "\<exists>m. mergeWithDefaults d = Inr (JObj m) \<and>
           (\<forall>p. get_path (JObj (document_json defaultSettings)) p \<noteq> None \<longrightarrow>
                get_path (JObj m) p \<noteq> None) \<and>
           (\<forall>p v. get_path (JObj d) p = Some v \<longrightarrow> \<not> is_object v \<longrightarrow>
                get_path (JObj m) p = Some v) \<and>
           (\<forall>p xs. get_path (JObj d) p = Some (JArr xs) \<longrightarrow>
                get_path (JObj m) p = Some (JArr xs))"
proof -
  from deepMerge_partial_document [OF refl assms] obtain m
    where m: "deepMerge (JObj (document_json defaultSettings)) d = Inr (JObj m)"
      and ok: "merged_ok (document_json defaultSettings) d m" by blast
  have arr: "get_path (JObj m) p = Some (JArr xs)"
    if "get_path (JObj d) p = Some (JArr xs)" for p xs
  proof -
    have "\<not> is_object (JArr xs)" by simp
    with ok that show ?thesis unfolding merged_ok_def by blast
  qed
  show ?thesis
    using m ok arr unfolding mergeWithDefaults_def merged_ok_def by blast
qed

theorem mergeWithDefaults_partial_document_witness:
  "partial_document (document_json defaultSettings)
     [(''general'', JObj [(''searchWidth'', JNum 55)]),
      (''engines'', JObj [(''list'', JArr [engine_json ''x'' ''X'' ''https://x.org/?q=%s'' ''x.ico''])])] \<and>
   (\<exists>m. mergeWithDefaults
          [(''general'', JObj [(''searchWidth'', JNum 55)]),
           (''engines'', JObj [(''list'', JArr [engine_json ''x'' ''X'' ''https://x.org/?q=%s'' ''x.ico''])])]
        = Inr (JObj m) \<and>
        get_path (JObj m) [''theme'', ''mode''] \<noteq> None \<and>
        get_path (JObj m) [''general'', ''searchWidth''] = Some (JNum 55) \<and>
        get_path (JObj m) [''engines'', ''list''] =
          Some (JArr [engine_json ''x'' ''X'' ''https://x.org/?q=%s'' ''x.ico'']))"
proof -
  let ?d = "[(''general'', JObj [(''searchWidth'', JNum 55)]),
      (''engines'', JObj [(''list'', JArr [engine_json ''x'' ''X'' ''https://x.org/?q=%s'' ''x.ico''])])]"
  have h: "partial_document (document_json defaultSettings) ?d"
    by (simp add: document_json_def defaultSettings_def)
  from mergeWithDefaults_partial_document [OF h] obtain m
    where m: "mergeWithDefaults ?d = Inr (JObj m)"
      and keys: "\<And>p. get_path (JObj (document_json defaultSettings)) p \<noteq> None \<Longrightarrow>
                  get_path (JObj m) p \<noteq> None"
      and leaves: "\<And>p v. get_path (JObj ?d) p = Some v \<Longrightarrow> \<not> is_object v \<Longrightarrow>
                  get_path (JObj m) p = Some v"
      and arrays: "\<And>p xs. get_path (JObj ?d) p = Some (JArr xs) \<Longrightarrow>
                  get_path (JObj m) p = Some (JArr xs)"
    by blast
  have "get_path (JObj m) [''theme'', ''mode''] \<noteq> None"
    by (rule keys) (simp add: document_json_def defaultSettings_def)
  moreover have "get_path (JObj m) [''general'', ''searchWidth''] = Some (JNum 55)"
    by (rule leaves) simp_all
  moreover have "get_path (JObj m) [''engines'', ''list''] =
      Some (JArr [engine_json ''x'' ''X'' ''https://x.org/?q=%s'' ''x.ico''])"
    by (rule arrays) simp
  ultimately show ?thesis using h m by blast
qed

subsection \<open>Category accessors\<close>

lemma category_key_inj: "category_key c = category_key c' \<longleftrightarrow> c = c'"
  by (cases c; cases c') simp_all

lemma defaultSettings_category: "map_of defaultSettings (category_key c) \<noteq> None"
  by (cases c) (simp_all add: defaultSettings_def)

lemma assign_fresh: "k \<notin> fst ` set acc \<Longrightarrow> assign k v acc = acc @ [(k, v)]"
  by (induction acc) auto

lemma spread_distinct:
  "distinct (map fst src) \<Longrightarrow> fst ` set acc \<inter> fst ` set src = {} \<Longrightarrow>
   spread acc src = acc @ src"
proof (induction src arbitrary: acc)
  case Nil
  then show ?case by simp
next
  case (Cons kv src)
  obtain k v where kv: "kv = (k, v)" by (cases kv)
  have fresh: "k \<notin> fst ` set acc" using Cons.prems(2) kv by auto
  have "fst ` set (acc @ [(k, v)]) \<inter> fst ` set src = {}"
    using Cons.prems kv by auto
  moreover have "distinct (map fst src)" using Cons.prems(1) by simp
  ultimately have "spread (acc @ [(k, v)]) src = (acc @ [(k, v)]) @ src"
    by (rule Cons.IH [rotated])
  then show ?case using kv fresh by (simp add: assign_fresh)
qed

lemma init_empty_store:
  assumes "stored cs = None"
  shows "stored (snd (init cs)) = None \<or> stored (snd (init cs)) = Some defaultSettings"
  using assms by (simp add: init_def get_def set'_def split: option.splits)

text \<open>
  C2, as amended. \<open>getCategory\<close> returns the default slice of the category, which is
  never \<open>undefined\<close>, when the read fails and when nothing is stored; when a document
  is stored and read, it returns that document's value at the category key as it is.
  With nothing stored, after \<open>init\<close> the category \<open>theme\<close> reads as \<open>{mode: 'system'}\<close>,
  whether the write of \<open>init\<close> and the later read succeed or fail.
\<close>

theorem getCategory_default_slice:
  "(getError cs \<noteq> None \<or> stored cs = None \<longrightarrow>
      getCategory cs c = map_of defaultSettings (category_key c) \<and>
      getCategory cs c \<noteq> None) \<and>
   (getError cs = None \<longrightarrow> stored cs = Some d \<longrightarrow>
      getCategory cs c = map_of d (category_key c)) \<and>
   (stored cs = None \<longrightarrow>
      getCategory ((snd (init cs))\<lparr>getError := ge\<rparr>) Theme = Some [(''mode'', JStr ''system'')])"
proof (intro conjI impI)
  assume "getError cs \<noteq> None \<or> stored cs = None"
  then show "getCategory cs c = map_of defaultSettings (category_key c)"
    by (auto simp: getCategory_def get_def split: option.splits)
  then show "getCategory cs c \<noteq> None"
    by (simp add: defaultSettings_category)
next
  assume "getError cs = None" "stored cs = Some d"
  then show "getCategory cs c = map_of d (category_key c)"
    by (simp add: getCategory_def get_def)
next
  assume "stored cs = None"
  from init_empty_store [OF this]
  have "getCategory ((snd (init cs))\<lparr>getError := ge\<rparr>) Theme
          = map_of defaultSettings ''theme''"
    by (auto simp: getCategory_def get_def split: option.splits)
  then show "getCategory ((snd (init cs))\<lparr>getError := ge\<rparr>) Theme
          = Some [(''mode'', JStr ''system'')]"
    by (simp add: defaultSettings_def)
qed

theorem getCategory_default_slice_witness:
  "getCategory \<lparr>stored = None, getError = None, setError = None\<rparr> Wallpaper
     = map_of defaultSettings ''wallpaper'' \<and>
   getCategory \<lparr>stored = None, getError = None, setError = None\<rparr> Wallpaper \<noteq> None \<and>
   getCategory \<lparr>stored = Some [(''theme'', [(''mode'', JStr ''dark'')])],
                 getError = None, setError = None\<rparr> Theme
     = Some [(''mode'', JStr ''dark'')] \<and>
   getCategory ((snd (init \<lparr>stored = None, getError = None, setError = None\<rparr>))
                  \<lparr>getError := None\<rparr>) Theme
     = Some [(''mode'', JStr ''system'')]"
proof -
  let ?empty = "\<lparr>stored = None, getError = None, setError = None\<rparr>"
  let ?dark = "\<lparr>stored = Some [(''theme'', [(''mode'', JStr ''dark'')])],
                 getError = None, setError = None\<rparr>"
  have e: "getError ?empty \<noteq> None \<or> stored ?empty = None" "stored ?empty = None"
    by simp_all
  have d: "getError ?dark = None" "stored ?dark = Some [(''theme'', [(''mode'', JStr ''dark'')])]"
    by simp_all
  note a = getCategory_default_slice [of ?empty Wallpaper "[]" None]
  note b = getCategory_default_slice
      [of ?dark Theme "[(''theme'', [(''mode'', JStr ''dark'')])]" None]
  have "getCategory ?empty Wallpaper = map_of defaultSettings (category_key Wallpaper)"
    and "getCategory ?empty Wallpaper \<noteq> None"
    and "getCategory ((snd (init ?empty))\<lparr>getError := None\<rparr>) Theme
           = Some [(''mode'', JStr ''system'')]"
    using a e by blast+
  moreover have "getCategory ?dark Theme
      = map_of [(''theme'', [(''mode'', JStr ''dark'')])] (category_key Theme)"
    using b d by blast
  ultimately show ?thesis by simp
qed

text \<open>
  The claim C2 as it stands fails where a document is stored that lacks the category:
  the document \<open>{general: {searchOpacity: 0.5}}\<close> has no \<open>theme\<close>, and \<open>getCategory\<close>
  returns \<open>undefined\<close> for it, not the default slice.
\<close>

theorem getCategory_missing_category_undefined:
  "map_of [(''general'', [(''searchOpacity'', JNum (1 / 2))])] (category_key Theme) = None \<and>
   getCategory \<lparr>stored = Some [(''general'', [(''searchOpacity'', JNum (1 / 2))])],
                 getError = None, setError = None\<rparr> Theme = None \<and>
   getCategory \<lparr>stored = Some [(''general'', [(''searchOpacity'', JNum (1 / 2))])],
                 getError = None, setError = None\<rparr> Theme
     \<noteq> map_of defaultSettings (category_key Theme)"
  by (simp add: getCategory_def get_def defaultSettings_def)

text \<open>
  C3. When the read and the write succeed, \<open>updateCategory cat {k: v}\<close> followed by
  \<open>getCategory cat\<close> yields a slice in which \<open>k\<close> is \<open>v\<close> (whatever was there, a nested
  object included, is replaced by \<open>v\<close> as a whole), every other key of the category is
  as it was, and every other top-level key of the stored document is as it was.
\<close>

theorem updateCategory_getCategory:
  assumes "getError cs = None" and "setError cs = None"
  shows "\<exists>cs' d' slice.
           updateCategory cs cat [(k, v)] = Inr cs' \<and>
           stored cs' = Some d' \<and>
           getCategory cs' cat = Some slice \<and>
           map_of slice k = Some v \<and>
           (\<forall>k'. k' \<noteq> k \<longrightarrow>
              map_of slice k' =
                (case stored cs of
                   None \<Rightarrow> None
                 | Some d \<Rightarrow>
                     (case map_of d (category_key cat) of
                        None \<Rightarrow> None
                      | Some old \<Rightarrow> map_of old k'))) \<and>
           (\<forall>c. c \<noteq> category_key cat \<longrightarrow>
              map_of d' c = (case stored cs of None \<Rightarrow> None | Some d \<Rightarrow> map_of d c))"
  using assms
  by (auto simp: updateCategory_def getCategory_def get_def set'_def map_of_assign Let_def
      split: option.splits)

theorem updateCategory_getCategory_witness:
  "\<exists>cs' d' slice.
     updateCategory \<lparr>stored = Some defaultSettings, getError = None, setError = None\<rparr>
       General [(''searchOpacity'', JNum (1 / 2))] = Inr cs' \<and>
     stored cs' = Some d' \<and>
     getCategory cs' General = Some slice \<and>
     map_of slice ''searchOpacity'' = Some (JNum (1 / 2)) \<and>
     map_of slice ''openIn'' = Some (JStr ''new-tab'') \<and>
     map_of d' ''theme'' = Some [(''mode'', JStr ''system'')]"
proof -
  let ?cs = "\<lparr>stored = Some defaultSettings, getError = None, setError = None\<rparr>"
  have g: "getError ?cs = None" and s: "setError ?cs = None" by simp_all
  from updateCategory_getCategory [OF g s, of General "''searchOpacity''" "JNum (1 / 2)"]
  obtain cs' d' slice where
    r: "updateCategory ?cs General [(''searchOpacity'', JNum (1 / 2))] = Inr cs'"
      "stored cs' = Some d'" "getCategory cs' General = Some slice"
      "map_of slice ''searchOpacity'' = Some (JNum (1 / 2))"
    and others: "\<And>k'. k' \<noteq> ''searchOpacity'' \<Longrightarrow>
        map_of slice k' =
          (case stored ?cs of None \<Rightarrow> None
           | Some d \<Rightarrow> (case map_of d (category_key General) of
                          None \<Rightarrow> None | Some old \<Rightarrow> map_of old k'))"
    and cats: "\<And>c. c \<noteq> category_key General \<Longrightarrow>
        map_of d' c = (case stored ?cs of None \<Rightarrow> None | Some d \<Rightarrow> map_of d c)"
    by blast
  have "map_of slice ''openIn'' = Some (JStr ''new-tab'')"
    using others [of "''openIn''"] by (simp add: defaultSettings_def)
  moreover have "map_of d' ''theme'' = Some [(''mode'', JStr ''system'')]"
    using cats [of "''theme''"] by (simp add: defaultSettings_def)
  ultimately show ?thesis using r by blast
qed

text \<open>
  C10. With nothing stored, a successful \<open>updateCategory cat updates\<close> stores the
  document whose only key is the category, holding exactly \<open>updates\<close>; the other
  categories are not filled in from the defaults, and reading any of them from the
  stored document gives \<open>undefined\<close>.
\<close>

theorem updateCategory_empty_store:
  assumes "stored cs = None" and "getError cs = None" and "setError cs = None"
    and "distinct (map fst updates)"
  shows "updateCategory cs cat updates =
           Inr (cs\<lparr>stored := Some [(category_key cat, updates)]\<rparr>) \<and>
         (\<forall>c. c \<noteq> cat \<longrightarrow>
            getCategory (cs\<lparr>stored := Some [(category_key cat, updates)]\<rparr>) c = None)"
proof -
  have "spread [] updates = updates"
    using spread_distinct [OF assms(4), of "[]"] by simp
  then show ?thesis
    using assms(1-3)
    by (simp add: updateCategory_def getCategory_def get_def set'_def category_key_inj)
qed

theorem updateCategory_empty_store_witness:
  "updateCategory \<lparr>stored = None, getError = None, setError = None\<rparr> General
     [(''searchOpacity'', JNum (1 / 2))]
     = Inr \<lparr>stored = Some [(''general'', [(''searchOpacity'', JNum (1 / 2))])],
            getError = None, setError = None\<rparr> \<and>
   getCategory \<lparr>stored = Some [(''general'', [(''searchOpacity'', JNum (1 / 2))])],
                 getError = None, setError = None\<rparr> Theme = None"
  using updateCategory_empty_store
      [of "\<lparr>stored = None, getError = None, setError = None\<rparr>"
          "[(''searchOpacity'', JNum (1 / 2))]" General]
  by simp

section \<open>Properties of the engine registry\<close>

subsection \<open>What each operation returns\<close>

lemma findIndex_Some:
  "findIndex P xs = Some i \<Longrightarrow> i < length xs \<and> P (xs ! i)"
proof (induction xs arbitrary: i)
  case Nil
  then show ?case by simp
next
  case (Cons x xs)
  then show ?case by (cases "P x") auto
qed



lemma getEngine_Some: "getEngine st i = Some e \<Longrightarrow> e \<in> set (engines st) \<and> id' e = i"
  by (auto simp: getEngine_def find_Some_iff)

lemma remove_nth_restore:
  "i < length xs \<Longrightarrow>
   take i (take i xs @ drop (Suc i) xs) @ xs ! i # drop i (take i xs @ drop (Suc i) xs) = xs"
  by (simp add: min_def id_take_nth_drop [symmetric])




lemma addEngine_cases:
  obtains (rejected) err where "addEngine now cs st e = (Inl err, st, cs)"
  | (added) x cs' where
      "addEngine now cs st e = (Inr x, st\<lparr>engines := engines st @ [x]\<rparr>, cs')"
      "updateCategory cs Engines
         [(''list'', JArr (map engine_to_json (engines st @ [x])))] = Inr cs'"
proof (cases "name e = [] \<or> url e = []")
  case True
  then show ?thesis using rejected by (simp add: addEngine_def)
next
  case filled: False
  show ?thesis
  proof (cases "includes' (url e) ''%s''")
    case False
    then show ?thesis using rejected filled by (simp add: addEngine_def)
  next
    case placeholder: True
    define i where "i = (if id' e \<noteq> [] then id' e else ''custom_'' @ decimal now)"
    show ?thesis
    proof (cases "getEngine st i")
      case (Some a)
      then show ?thesis using rejected filled placeholder
        by (simp add: addEngine_def i_def [symmetric] del: not_None_eq)
    next
      case None
      define x where "x = \<lparr>id' = i, name = name e, url = url e,
          icon = (if icon e \<noteq> [] then icon e else ''assets/ui/search.svg'')\<rparr>"
      show ?thesis
      proof (cases "updateCategory cs Engines
                      [(''list'', JArr (map engine_to_json (engines st @ [x])))]")
        case (Inl err)
        then have "addEngine now cs st e = (Inl err, st, cs)"
          using filled placeholder None
          by (simp add: addEngine_def i_def [symmetric] x_def [symmetric] Let_def)
        then show ?thesis by (rule rejected)
      next
        case (Inr cs')
        then have "addEngine now cs st e = (Inr x, st\<lparr>engines := engines st @ [x]\<rparr>, cs')"
          using filled placeholder None
          by (simp add: addEngine_def i_def [symmetric] x_def [symmetric] Let_def)
        then show ?thesis using Inr by (rule added)
      qed
    qed
  qed
qed

lemma updateEngine_cases:
  obtains (rejected) err where "updateEngine cs st i updates = (Inl err, st, cs)"
  | (updated) index cs' where "index < length (engines st)"
      "id' (engines st ! index) = i"
      "updateEngine cs st i updates =
         (Inr (spread_engine (engines st ! index) updates),
          st\<lparr>engines := (engines st)[index := spread_engine (engines st ! index) updates]\<rparr>,
          cs')"
      "updateCategory cs Engines
         [(''list'', JArr (map engine_to_json
             ((engines st)[index := spread_engine (engines st ! index) updates])))] = Inr cs'"
proof (cases "findIndex (\<lambda>engine. id' engine = i) (engines st)")
  case None
  then show ?thesis using rejected by (simp add: updateEngine_def)
next
  case (Some index)
  then have lt: "index < length (engines st)" and idx: "id' (engines st ! index) = i"
    using findIndex_Some [OF Some] by simp_all
  show ?thesis
  proof (cases "case map_of updates ''url'' of
                  Some u \<Rightarrow> u \<noteq> [] \<and> \<not> includes' u ''%s'' | None \<Rightarrow> False")
    case True
    then show ?thesis using rejected Some by (simp add: updateEngine_def)
  next
    case False
    let ?y = "spread_engine (engines st ! index) updates"
    show ?thesis
    proof (cases "updateCategory cs Engines
                    [(''list'', JArr (map engine_to_json ((engines st)[index := ?y])))]")
      case (Inl err)
      then have "updateEngine cs st i updates = (Inl err, st, cs)"
        using Some False by (simp add: updateEngine_def Let_def)
      then show ?thesis by (rule rejected)
    next
      case (Inr cs')
      then have "updateEngine cs st i updates =
          (Inr ?y, st\<lparr>engines := (engines st)[index := ?y]\<rparr>, cs')"
        using Some False by (simp add: updateEngine_def Let_def)
      then show ?thesis using updated lt idx Inr by blast
    qed
  qed
qed

lemma deleteEngine_cases:
  obtains (not_found) "findIndex (\<lambda>engine. id' engine = i) (engines st) = None"
      "deleteEngine cs st i = (Inl (EngineNotFound i), st, cs)"
  | (deleted) index cs' where "index < length (engines st)"
      "id' (engines st ! index) = i"
      "deleteEngine cs st i =
         (Inr (engines st ! index),
          st\<lparr>engines := take index (engines st) @ drop (Suc index) (engines st),
             defaultEngineId :=
               (if defaultEngineId st = i \<and>
                   take index (engines st) @ drop (Suc index) (engines st) \<noteq> []
                then id' ((take index (engines st) @ drop (Suc index) (engines st)) ! 0)
                else defaultEngineId st)\<rparr>,
          cs')"
      "updateCategory cs Engines
         [(''list'', JArr (map engine_to_json
                        (take index (engines st) @ drop (Suc index) (engines st)))),
          (''default'', JStr
             (if defaultEngineId st = i \<and>
                 take index (engines st) @ drop (Suc index) (engines st) \<noteq> []
              then id' ((take index (engines st) @ drop (Suc index) (engines st)) ! 0)
              else defaultEngineId st))] = Inr cs'"
  | (failed) index err where "index < length (engines st)"
      "id' (engines st ! index) = i"
      "deleteEngine cs st i =
         (Inl err,
          st\<lparr>defaultEngineId :=
               (if defaultEngineId st = i \<and>
                   take index (engines st) @ drop (Suc index) (engines st) \<noteq> []
                then id' ((take index (engines st) @ drop (Suc index) (engines st)) ! 0)
                else defaultEngineId st)\<rparr>,
          cs)"
      "updateCategory cs Engines
         [(''list'', JArr (map engine_to_json
                        (take index (engines st) @ drop (Suc index) (engines st)))),
          (''default'', JStr
             (if defaultEngineId st = i \<and>
                 take index (engines st) @ drop (Suc index) (engines st) \<noteq> []
              then id' ((take index (engines st) @ drop (Suc index) (engines st)) ! 0)
              else defaultEngineId st))] = Inl err"
proof (cases "findIndex (\<lambda>engine. id' engine = i) (engines st)")
  case None
  then show ?thesis using not_found by (simp add: deleteEngine_def)
next
  case (Some index)
  then have lt: "index < length (engines st)" and idx: "id' (engines st ! index) = i"
    using findIndex_Some [OF Some] by simp_all
  define rem where "rem = take index (engines st) @ drop (Suc index) (engines st)"
  define d where "d = (if defaultEngineId st = i \<and> rem \<noteq> [] then id' (rem ! 0)
                       else defaultEngineId st)"
  have restore: "take index rem @ engines st ! index # drop index rem = engines st"
    unfolding rem_def using lt by (rule remove_nth_restore)
  have eq: "deleteEngine cs st i =
      (case updateCategory cs Engines
              [(''list'', JArr (map engine_to_json rem)), (''default'', JStr d)] of
         Inr cs' \<Rightarrow> (Inr (engines st ! index), st\<lparr>engines := rem, defaultEngineId := d\<rparr>, cs')
       | Inl e \<Rightarrow>
           (Inl e,
            st\<lparr>engines := take index rem @ engines st ! index # drop index rem,
               defaultEngineId := d\<rparr>, cs))"
    unfolding deleteEngine_def Some option.case Let_def rem_def [symmetric]
    by (cases "defaultEngineId st = i \<and> rem \<noteq> []") (auto simp: d_def split: sum.splits)
  show ?thesis
  proof (cases "updateCategory cs Engines
                  [(''list'', JArr (map engine_to_json rem)), (''default'', JStr d)]")
    case (Inl err)
    have "deleteEngine cs st i = (Inl err, st\<lparr>defaultEngineId := d\<rparr>, cs)"
      using eq Inl restore by simp
    then show ?thesis using failed [OF lt idx] Inl unfolding rem_def d_def by blast
  next
    case (Inr cs')
    have "deleteEngine cs st i =
        (Inr (engines st ! index), st\<lparr>engines := rem, defaultEngineId := d\<rparr>, cs')"
      using eq Inr by simp
    then show ?thesis using deleted [OF lt idx] Inr unfolding rem_def d_def by blast
  qed
qed

lemma lookup_all_Inr:
  "lookup_all st is = Inr es \<Longrightarrow> map id' es = is \<and> set es \<subseteq> set (engines st)"
proof (induction "is" arbitrary: es)
  case Nil
  then show ?case by simp
next
  case (Cons i "is")
  from Cons.prems obtain e es' where e: "getEngine st i = Some e"
    and es': "lookup_all st is = Inr es'" and es: "es = e # es'"
    by (auto split: option.splits sum.splits)
  from Cons.IH [OF es'] getEngine_Some [OF e] es show ?case by simp
qed

lemma reorderEngines_cases:
  obtains (rejected) err where "reorderEngines cs st is = (Inl err, st, cs)"
  | (reordered) es cs' where "map id' es = is" "set es \<subseteq> set (engines st)"
      "length es = length (engines st)"
      "reorderEngines cs st is = (Inr (), st\<lparr>engines := es\<rparr>, cs')"
      "updateCategory cs Engines [(''list'', JArr (map engine_to_json es))] = Inr cs'"
proof (cases "lookup_all st is")
  case (Inl err)
  then show ?thesis using rejected by (simp add: reorderEngines_def)
next
  case (Inr es)
  show ?thesis
  proof (cases "length es = length (engines st)")
    case False
    then show ?thesis using rejected Inr by (simp add: reorderEngines_def)
  next
    case True
    show ?thesis
    proof (cases "updateCategory cs Engines [(''list'', JArr (map engine_to_json es))]")
      case (Inl err)
      then have "reorderEngines cs st is = (Inl err, st, cs)"
        using Inr True by (simp add: reorderEngines_def Let_def)
      then show ?thesis by (rule rejected)
    next
      case upd: (Inr cs')
      then have "reorderEngines cs st is = (Inr (), st\<lparr>engines := es\<rparr>, cs')"
        using Inr True by (simp add: reorderEngines_def Let_def)
      then show ?thesis using reordered lookup_all_Inr [OF Inr] True upd by blast
    qed
  qed
qed

lemma resetToDefaults_cases:
  obtains (failed) err where "resetToDefaults cs st = (Inl err, st, cs)"
  | (reset) cs' where
      "resetToDefaults cs st =
         (Inr (), st\<lparr>engines := defaultEngines, defaultEngineId := ''google''\<rparr>, cs')"
      "updateCategory cs Engines
         [(''list'', JArr (map engine_to_json defaultEngines)),
          (''default'', JStr ''google'')] = Inr cs'"
proof (cases "updateCategory cs Engines
                [(''list'', JArr (map engine_to_json defaultEngines)),
                 (''default'', JStr ''google'')]")
  case (Inl err)
  then have "resetToDefaults cs st = (Inl err, st, cs)"
    by (simp add: resetToDefaults_def Let_def)
  then show ?thesis by (rule failed)
next
  case (Inr cs')
  then have "resetToDefaults cs st =
      (Inr (), st\<lparr>engines := defaultEngines, defaultEngineId := ''google''\<rparr>, cs')"
    by (simp add: resetToDefaults_def Let_def)
  then show ?thesis using Inr by (rule reset)
qed

lemma updateCategory_ok:
  assumes "getError cs = None" and "setError cs = None"
  shows "\<exists>cs'. updateCategory cs c u = Inr cs' \<and> getError cs' = None \<and>
           setError cs' = None \<and>
           getCategory cs' c =
             Some (spread (case map_of (case stored cs of None \<Rightarrow> [] | Some d \<Rightarrow> d)
                                  (category_key c) of
                             None \<Rightarrow> [] | Some props \<Rightarrow> props) u)"
  using assms
  by (simp add: updateCategory_def getCategory_def get_def set'_def Let_def map_of_assign)

subsection \<open>The stored engines category\<close>










subsection \<open>The default engine resolves\<close>












subsection \<open>The other writers of the engines category\<close>












subsection \<open>Rollback\<close>

text \<open>
  When \<open>addEngine\<close>, \<open>updateEngine\<close>, \<open>reorderEngines\<close> or \<open>resetToDefaults\<close> throws,
  the registry and the store are what they were before the call. When \<open>deleteEngine\<close>
  throws, the list and the store are what they were.
\<close>

lemma rollback_restores:
  "addEngine now cs st e = (Inl err, st', cs') \<Longrightarrow> st' = st \<and> cs' = cs"
  "updateEngine cs st i updates = (Inl err, st', cs') \<Longrightarrow> st' = st \<and> cs' = cs"
  "reorderEngines cs st engineIds = (Inl err, st', cs') \<Longrightarrow> st' = st \<and> cs' = cs"
  "resetToDefaults cs st = (Inl err, st', cs') \<Longrightarrow> st' = st \<and> cs' = cs"
  "deleteEngine cs st i = (Inl err, st', cs') \<Longrightarrow> engines st' = engines st \<and> cs' = cs"
proof -
  show "addEngine now cs st e = (Inl err, st', cs') \<Longrightarrow> st' = st \<and> cs' = cs"
    by (cases rule: addEngine_cases [of now cs st e]) simp_all
  show "updateEngine cs st i updates = (Inl err, st', cs') \<Longrightarrow> st' = st \<and> cs' = cs"
    by (cases rule: updateEngine_cases [of cs st i updates]) simp_all
  show "reorderEngines cs st engineIds = (Inl err, st', cs') \<Longrightarrow> st' = st \<and> cs' = cs"
    by (cases rule: reorderEngines_cases [of cs st engineIds]) simp_all
  show "resetToDefaults cs st = (Inl err, st', cs') \<Longrightarrow> st' = st \<and> cs' = cs"
    by (cases rule: resetToDefaults_cases [of cs st]) simp_all
  show "deleteEngine cs st i = (Inl err, st', cs') \<Longrightarrow> engines st' = engines st \<and> cs' = cs"
    by (cases rule: deleteEngine_cases [where cs = cs and st = st and i = i]) auto
qed

text \<open>
  C5 at a failing input: the registry holds the four default engines with \<open>google\<close>
  the default, and the write fails. \<open>deleteEngine 'google'\<close> throws the storage error
  and puts the engine back into the list, but the default id stays \<open>bing\<close>, the id it
  was given before the write; the state before the call had \<open>google\<close>.
\<close>

theorem deleteEngine_failed_write_keeps_new_default:
  "deleteEngine \<lparr>stored = None, getError = None, setError = Some ''QUOTA_BYTES''\<rparr>
     \<lparr>engines = defaultEngines, defaultEngineId = ''google''\<rparr> ''google''
   = (Inl (StorageError ''QUOTA_BYTES''),
      \<lparr>engines = defaultEngines, defaultEngineId = ''bing''\<rparr>,
      \<lparr>stored = None, getError = None, setError = Some ''QUOTA_BYTES''\<rparr>)"
  by (simp add: deleteEngine_def defaultEngines_def updateCategory_def get_def set'_def)

text \<open>
  C7. \<open>addEngine\<close> throws, before it changes anything, for an engine whose URL lacks
  the \<open>%s\<close> placeholder and for an engine whose id (the given one, or the generated
  \<open>custom_\<close> id when none is given) is already in the list; the registry and the store
  are returned as they were.
\<close>

theorem addEngine_rejects:
  assumes "\<not> includes' (url e) ''%s'' \<or>
           getEngine st (if id' e \<noteq> [] then id' e else ''custom_'' @ decimal now) \<noteq> None"
  shows "addEngine now cs st e =
           (Inl (if name e = [] \<or> url e = [] then NameOrUrlEmpty
                 else if \<not> includes' (url e) ''%s'' then UrlWithoutPlaceholder
                 else IdExists),
            st, cs)"
proof (cases "name e = [] \<or> url e = []")
  case True
  then show ?thesis by (simp add: addEngine_def)
next
  case filled: False
  show ?thesis
  proof (cases "includes' (url e) ''%s''")
    case False
    then show ?thesis using filled by (simp add: addEngine_def)
  next
    case True
    then have "getEngine st (if id' e \<noteq> [] then id' e else ''custom_'' @ decimal now) \<noteq> None"
      using assms by simp
    then show ?thesis using filled True
      by (simp add: addEngine_def Let_def del: not_None_eq)
  qed
qed

theorem addEngine_rejects_witness:
  "addEngine 1700000000000 \<lparr>stored = None, getError = None, setError = None\<rparr>
     \<lparr>engines = defaultEngines, defaultEngineId = ''google''\<rparr>
     \<lparr>id' = [], name = ''Example'', url = ''https://example.org/search'', icon = []\<rparr>
   = (Inl UrlWithoutPlaceholder,
      \<lparr>engines = defaultEngines, defaultEngineId = ''google''\<rparr>,
      \<lparr>stored = None, getError = None, setError = None\<rparr>) \<and>
   addEngine 1700000000000 \<lparr>stored = None, getError = None, setError = None\<rparr>
     \<lparr>engines = defaultEngines, defaultEngineId = ''google''\<rparr>
     \<lparr>id' = ''bing'', name = ''Bing 2'', url = ''https://www.bing.com/?q=%s'', icon = []\<rparr>
   = (Inl IdExists,
      \<lparr>engines = defaultEngines, defaultEngineId = ''google''\<rparr>,
      \<lparr>stored = None, getError = None, setError = None\<rparr>)"
proof -
  let ?st = "\<lparr>engines = defaultEngines, defaultEngineId = ''google''\<rparr>"
  let ?cs = "\<lparr>stored = None, getError = None, setError = None\<rparr>"
  let ?e1 = "\<lparr>id' = [], name = ''Example'', url = ''https://example.org/search'',
              icon = []\<rparr>"
  let ?e2 = "\<lparr>id' = ''bing'', name = ''Bing 2'', url = ''https://www.bing.com/?q=%s'',
              icon = []\<rparr>"
  have h1: "\<not> includes' (url ?e1) ''%s'' \<or>
      getEngine ?st (if id' ?e1 \<noteq> [] then id' ?e1 else ''custom_'' @ decimal 1700000000000)
        \<noteq> None"
    by simp
  have inc: "includes' (url ?e2) ''%s''" by simp
  have h2: "\<not> includes' (url ?e2) ''%s'' \<or>
      getEngine ?st (if id' ?e2 \<noteq> [] then id' ?e2 else ''custom_'' @ decimal 1700000000000)
        \<noteq> None"
    by (simp add: getEngine_def defaultEngines_def)
  show ?thesis
    using addEngine_rejects [OF h1, of ?cs] addEngine_rejects [OF h2, of ?cs] inc
    by simp
qed

text \<open>
  The panel's \<open>saveEngine\<close> likewise leaves its list and the store alone when the
  URL in the field has no \<open>%s\<close>.
\<close>

lemma Settings_saveEngine_rejects:
  "\<not> includes' (trim urlValue) ''%s'' \<Longrightarrow>
   Settings_saveEngine now cs es editingEngine nameValue urlValue iconValue = (es, cs)"
  by (simp add: Settings_saveEngine_def Let_def)

section \<open>Properties of the search module\<close>

subsection \<open>Cycling through the engines\<close>

lemma switchEngine_state:
  "tabSwitchEnabled s \<Longrightarrow> engines' s \<noteq> [] \<Longrightarrow>
   fst (switchEngine cs s) =
     s\<lparr>currentEngineIndex := (currentEngineIndex s + 1) mod length (engines' s)\<rparr>"
  by (simp add: switchEngine_def Let_def)

lemma switchEngine_funpow:
  assumes "tabSwitchEnabled s" and "currentEngineIndex s < length (engines' s)"
  shows "fst (((\<lambda>(s, cs). switchEngine cs s) ^^ n) (s, cs)) =
           s\<lparr>currentEngineIndex := (currentEngineIndex s + n) mod length (engines' s)\<rparr>"
proof (induction n)
  case 0
  then show ?case using assms(2) by simp
next
  case (Suc n)
  obtain s' cs' where p: "((\<lambda>(s, cs). switchEngine cs s) ^^ n) (s, cs) = (s', cs')"
    by (cases "((\<lambda>(s, cs). switchEngine cs s) ^^ n) (s, cs)")
  with Suc have s': "s' = s\<lparr>currentEngineIndex :=
      (currentEngineIndex s + n) mod length (engines' s)\<rparr>" by simp
  have ne: "engines' s \<noteq> []" using assms(2) by auto
  have "fst (switchEngine cs' s') =
      s'\<lparr>currentEngineIndex := (currentEngineIndex s' + 1) mod length (engines' s')\<rparr>"
    using assms(1) ne s' by (intro switchEngine_state) simp_all
  then show ?case using p s' by (simp add: mod_Suc_eq)
qed

text \<open>
  C6. With Tab switching enabled, one \<open>switchEngine\<close> moves the index to
  \<open>(currentIndex + 1) mod length\<close> and changes nothing else of the module; on an empty
  list it changes nothing at all; from any index of a list of length \<open>N\<close>, \<open>N\<close> calls
  in a row come back to that index; and when the read and the write succeed, each
  call leaves the id of the newly selected engine as \<open>engines.default\<close> in the store.
\<close>

theorem switchEngine_cycle:
  assumes "tabSwitchEnabled s"
  shows "(engines' s = [] \<longrightarrow> switchEngine cs s = (s, cs)) \<and>
         (engines' s \<noteq> [] \<longrightarrow>
            fst (switchEngine cs s) =
              s\<lparr>currentEngineIndex := (currentEngineIndex s + 1) mod length (engines' s)\<rparr>) \<and>
         (currentEngineIndex s < length (engines' s) \<longrightarrow>
            fst (((\<lambda>(s, cs). switchEngine cs s) ^^ length (engines' s)) (s, cs)) = s) \<and>
         (engines' s \<noteq> [] \<and> getError cs = None \<and> setError cs = None \<longrightarrow>
            (\<exists>slice.
               getCategory (snd (switchEngine cs s)) Engines = Some slice \<and>
               map_of slice ''default'' =
                 Some (JStr (id' (engines' s !
                    ((currentEngineIndex s + 1) mod length (engines' s)))))))"
proof (intro conjI impI)
  assume "engines' s = []"
  then show "switchEngine cs s = (s, cs)" by (simp add: switchEngine_def)
next
  assume "engines' s \<noteq> []"
  with assms show "fst (switchEngine cs s) =
      s\<lparr>currentEngineIndex := (currentEngineIndex s + 1) mod length (engines' s)\<rparr>"
    by (rule switchEngine_state)
next
  assume lt: "currentEngineIndex s < length (engines' s)"
  from switchEngine_funpow [OF assms lt, of "length (engines' s)" cs] lt
  show "fst (((\<lambda>(s, cs). switchEngine cs s) ^^ length (engines' s)) (s, cs)) = s"
    by simp
next
  assume a: "engines' s \<noteq> [] \<and> getError cs = None \<and> setError cs = None"
  let ?next = "(currentEngineIndex s + 1) mod length (engines' s)"
  let ?id = "id' (engines' s ! ?next)"
  have lt: "?next < length (engines' s)" using a by simp
  from a updateCategory_ok [of cs Engines "[(''default'', JStr ?id)]"]
  obtain cs' old where cs': "updateCategory cs Engines [(''default'', JStr ?id)] = Inr cs'"
    "getCategory cs' Engines = Some (spread old [(''default'', JStr ?id)])"
    by auto
  have "snd (switchEngine cs s) = cs'"
    using assms a lt cs'(1)
    by (simp add: switchEngine_def saveDefaultEngine_def nth_opt_def Let_def)
  then show "\<exists>slice.
      getCategory (snd (switchEngine cs s)) Engines = Some slice \<and>
      map_of slice ''default'' = Some (JStr ?id)"
    using cs'(2) by (simp add: map_of_assign)
qed

theorem switchEngine_cycle_witness:
  "fst (switchEngine \<lparr>stored = None, getError = None, setError = None\<rparr>
     \<lparr>engines' = take 3 defaultEngines, currentEngineIndex = 2, tabSwitchEnabled = True,
      openIn = ''new-tab''\<rparr>)
   = \<lparr>engines' = take 3 defaultEngines, currentEngineIndex = 0, tabSwitchEnabled = True,
      openIn = ''new-tab''\<rparr> \<and>
   switchEngine \<lparr>stored = None, getError = None, setError = None\<rparr>
     \<lparr>engines' = [], currentEngineIndex = 0, tabSwitchEnabled = True, openIn = ''new-tab''\<rparr>
   = (\<lparr>engines' = [], currentEngineIndex = 0, tabSwitchEnabled = True, openIn = ''new-tab''\<rparr>,
      \<lparr>stored = None, getError = None, setError = None\<rparr>) \<and>
   fst (((\<lambda>(s, cs). switchEngine cs s) ^^ 3)
     (\<lparr>engines' = take 3 defaultEngines, currentEngineIndex = 2, tabSwitchEnabled = True,
       openIn = ''new-tab''\<rparr>,
      \<lparr>stored = None, getError = None, setError = None\<rparr>))
   = \<lparr>engines' = take 3 defaultEngines, currentEngineIndex = 2, tabSwitchEnabled = True,
      openIn = ''new-tab''\<rparr> \<and>
   (\<exists>slice.
      getCategory (snd (switchEngine \<lparr>stored = None, getError = None, setError = None\<rparr>
        \<lparr>engines' = take 3 defaultEngines, currentEngineIndex = 2, tabSwitchEnabled = True,
         openIn = ''new-tab''\<rparr>)) Engines = Some slice \<and>
      map_of slice ''default'' = Some (JStr ''google''))"
proof -
  let ?s = "\<lparr>engines' = take 3 defaultEngines, currentEngineIndex = 2,
             tabSwitchEnabled = True, openIn = ''new-tab''\<rparr>"
  let ?e = "\<lparr>engines' = [], currentEngineIndex = 0, tabSwitchEnabled = True,
             openIn = ''new-tab''\<rparr>"
  let ?cs = "\<lparr>stored = None, getError = None, setError = None\<rparr>"
  have en: "tabSwitchEnabled ?s" "tabSwitchEnabled ?e" by simp_all
  have len: "length (engines' ?s) = 3" by (simp add: defaultEngines_def)
  have ne: "engines' ?s \<noteq> []" using len by auto
  have lt: "currentEngineIndex ?s < length (engines' ?s)" using len by simp
  have ok: "engines' ?s \<noteq> [] \<and> getError ?cs = None \<and> setError ?cs = None"
    using ne by simp
  have first: "id' (engines' ?s ! 0) = ''google''" by (simp add: defaultEngines_def)
  note t = switchEngine_cycle [OF en(1), of ?cs]
  note t0 = switchEngine_cycle [OF en(2), of ?cs]
  have a: "fst (switchEngine ?cs ?s) = ?s\<lparr>currentEngineIndex := 0\<rparr>"
    using t [THEN conjunct2, THEN conjunct1, THEN mp, OF ne] len by simp
  have b: "switchEngine ?cs ?e = (?e, ?cs)"
    using t0 [THEN conjunct1] by simp
  have c: "fst (((\<lambda>(s, cs). switchEngine cs s) ^^ 3) (?s, ?cs)) = ?s"
    using t [THEN conjunct2, THEN conjunct2, THEN conjunct1, THEN mp, OF lt] len by simp
  have d: "\<exists>slice. getCategory (snd (switchEngine ?cs ?s)) Engines = Some slice \<and>
      map_of slice ''default'' = Some (JStr ''google'')"
    using t [THEN conjunct2, THEN conjunct2, THEN conjunct2, THEN mp, OF ok] len first
    by simp
  from a b c d show ?thesis by simp
qed

subsection \<open>Search dispatch\<close>

lemma startsWith_append: "startsWith s p \<Longrightarrow> startsWith (s @ t) p"
  by (induction s p rule: startsWith.induct) simp_all

lemma startsWith_decompose: "startsWith s p \<Longrightarrow> s = p @ drop (length p) s"
  by (induction s p rule: startsWith.induct) simp_all

lemma split_first_None: "split_first s p = None \<longleftrightarrow> \<not> includes' s p"
  by (induction s) (auto split: option.splits)

lemma split_first_Some:
  "split_first s p = Some (b, a) \<Longrightarrow> p \<noteq> [] \<Longrightarrow> s = b @ p @ a \<and> \<not> includes' b p"
proof (induction s arbitrary: b)
  case Nil
  then show ?case by (simp split: if_splits)
next
  case (Cons c cs)
  show ?case
  proof (cases "startsWith (c # cs) p")
    case True
    then have "b = []" "a = drop (length p) (c # cs)" using Cons.prems by simp_all
    then show ?thesis using startsWith_decompose [OF True] Cons.prems(2) by simp
  next
    case False
    then obtain b' where b': "split_first cs p = Some (b', a)" "b = c # b'"
      using Cons.prems by (auto split: option.splits)
    from Cons.IH [OF b'(1) Cons.prems(2)] have cs: "cs = b' @ p @ a" and ni: "\<not> includes' b' p"
      by simp_all
    have "\<not> startsWith (c # b') p"
    proof
      assume "startsWith (c # b') p"
      then have "startsWith ((c # b') @ p @ a) p" by (rule startsWith_append)
      then show False using False cs by simp
    qed
    then show ?thesis using cs ni b'(2) by simp
  qed
qed

lemma getSubstitution_plain:
  "CHR ''$'' \<notin> set template \<Longrightarrow> getSubstitution matched before after template = template"
  by (induction matched before after template rule: getSubstitution.induct) auto

lemma replace_plain:
  assumes "CHR ''$'' \<notin> set text" and "p \<noteq> []"
  shows "(includes' s p \<longrightarrow>
            (\<exists>pre post. s = pre @ p @ post \<and> \<not> includes' pre p \<and>
               replace s p text = pre @ text @ post)) \<and>
         (\<not> includes' s p \<longrightarrow> replace s p text = s)"
proof (cases "split_first s p")
  case None
  then have "\<not> includes' s p" by (simp add: split_first_None)
  then show ?thesis using None by (simp add: replace_def)
next
  case (Some ba)
  obtain b a where ba: "ba = (b, a)" by (cases ba)
  from split_first_Some [OF Some [unfolded ba] assms(2)]
  have "s = b @ p @ a" "\<not> includes' b p" by simp_all
  moreover have "replace s p text = b @ text @ a"
    using Some ba assms(1) by (simp add: replace_def getSubstitution_plain)
  moreover have "includes' s p" using Some split_first_None [of s p] by auto
  ultimately show ?thesis by blast
qed

lemma hexDigit_not_dollar: "n < 16 \<Longrightarrow> hexDigit n \<noteq> CHR ''$''"
proof -
  assume "n < 16"
  then have "hexDigit n \<in> set ''0123456789ABCDEF''"
    unfolding hexDigit_def by (intro nth_mem) simp
  then show ?thesis by auto
qed

lemma percent_no_dollar: "CHR ''$'' \<notin> set (percent c)"
proof -
  have "(of_char c :: nat) < 256" by (rule nat_of_char_less_256)
  then have hi: "(of_char c :: nat) div 16 < 16" by arith
  have lo: "(of_char c :: nat) mod 16 < 16" by simp
  have "hexDigit (of_char c div 16) \<noteq> CHR ''$''"
    "hexDigit (of_char c mod 16) \<noteq> CHR ''$''"
    using hexDigit_not_dollar [OF hi] hexDigit_not_dollar [OF lo] by blast+
  then show ?thesis
    unfolding percent_def by simp
qed

lemma unreserved_no_dollar: "CHR ''$'' \<notin> set uriUnreserved"
  by (simp add: uriUnreserved_def)

lemma encodeURIComponent_no_dollar: "CHR ''$'' \<notin> set (encodeURIComponent s)"
proof (induction s)
  case Nil
  show ?case by (simp add: encodeURIComponent_def)
next
  case (Cons c s)
  have "CHR ''$'' \<notin> set (if c \<in> set uriUnreserved then [c] else percent c)"
    using unreserved_no_dollar percent_no_dollar by auto
  then show ?case using Cons by (simp add: encodeURIComponent_def)
qed

text \<open>
  C9. For the URL template of the active engine and an input whose trimmed text is
  not empty, \<open>performSearch\<close> navigates the current view when \<open>openIn\<close> is
  \<open>current-tab\<close> and opens a new view otherwise, to the template in which the first
  occurrence of \<open>%s\<close> (the one with no occurrence in the text before it) is replaced by
  the percent-encoded trimmed query; a template without \<open>%s\<close> is the target as it is.
\<close>

theorem performSearch_dispatch:
  assumes "trim v \<noteq> []" and "currentEngineIndex s < length (engines' s)"
  shows "\<exists>target.
           performSearch s v =
             (if openIn s = ''current-tab'' then Navigate target else OpenTab target) \<and>
           (includes' (url (engines' s ! currentEngineIndex s)) ''%s'' \<longrightarrow>
              (\<exists>pre post.
                 url (engines' s ! currentEngineIndex s) = pre @ ''%s'' @ post \<and>
                 \<not> includes' pre ''%s'' \<and>
                 target = pre @ encodeURIComponent (trim v) @ post)) \<and>
           (\<not> includes' (url (engines' s ! currentEngineIndex s)) ''%s'' \<longrightarrow>
              target = url (engines' s ! currentEngineIndex s))"
proof -
  let ?t = "url (engines' s ! currentEngineIndex s)"
  let ?u = "replace ?t ''%s'' (encodeURIComponent (trim v))"
  have "performSearch s v = (if openIn s = ''current-tab'' then Navigate ?u else OpenTab ?u)"
    using assms by (simp add: performSearch_def nth_opt_def Let_def)
  moreover note replace_plain [OF encodeURIComponent_no_dollar, of "''%s''" ?t "trim v"]
  ultimately show ?thesis by auto
qed

theorem performSearch_dispatch_witness:
  "(\<exists>target.
      performSearch
        \<lparr>engines' = defaultEngines, currentEngineIndex = 1, tabSwitchEnabled = True,
         openIn = ''current-tab''\<rparr> ''  a b&c  '' = Navigate target \<and>
      (\<exists>pre post.
         ''https://www.bing.com/search?q=%s'' = pre @ ''%s'' @ post \<and>
         \<not> includes' pre ''%s'' \<and> target = pre @ ''a%20b%26c'' @ post)) \<and>
   performSearch
     \<lparr>engines' = [\<lparr>id' = ''x'', name = ''X'', url = ''https://x.org/'', icon = []\<rparr>],
      currentEngineIndex = 0, tabSwitchEnabled = True, openIn = ''new-tab''\<rparr> ''q''
     = OpenTab ''https://x.org/''"
proof -
  let ?s = "\<lparr>engines' = defaultEngines, currentEngineIndex = 1, tabSwitchEnabled = True,
        openIn = ''current-tab''\<rparr>"
  let ?x = "\<lparr>engines' = [\<lparr>id' = ''x'', name = ''X'', url = ''https://x.org/'', icon = []\<rparr>],
      currentEngineIndex = 0, tabSwitchEnabled = True, openIn = ''new-tab''\<rparr>"
  have tr: "trim ''  a b&c  '' = ''a b&c''"
    by (simp add: trim_def white_space_def strip_leading.simps)
  have h1: "trim ''  a b&c  '' \<noteq> []" by (simp add: tr)
  have h2: "currentEngineIndex ?s < length (engines' ?s)" by (simp add: defaultEngines_def)
  have u: "url (engines' ?s ! currentEngineIndex ?s) = ''https://www.bing.com/search?q=%s''"
    by (simp add: defaultEngines_def)
  have enc: "encodeURIComponent ''a b&c'' = ''a%20b%26c''"
    by (simp add: encodeURIComponent_def uriUnreserved_def percent_def hexDigit_def)
  have inc: "includes' ''https://www.bing.com/search?q=%s'' ''%s''" by simp
  from performSearch_dispatch [OF h1 h2] have a: "\<exists>target.
      performSearch ?s ''  a b&c  '' = Navigate target \<and>
      (\<exists>pre post.
         ''https://www.bing.com/search?q=%s'' = pre @ ''%s'' @ post \<and>
         \<not> includes' pre ''%s'' \<and> target = pre @ ''a%20b%26c'' @ post)"
    unfolding u tr enc using inc by auto
  have trq: "trim ''q'' = ''q''"
    by (simp add: trim_def white_space_def strip_leading.simps)
  have k1: "trim ''q'' \<noteq> []" by (simp add: trq)
  have k2: "currentEngineIndex ?x < length (engines' ?x)" by simp
  have ux: "url (engines' ?x ! currentEngineIndex ?x) = ''https://x.org/''" by simp
  have ninc: "\<not> includes' ''https://x.org/'' ''%s''" by simp
  from performSearch_dispatch [OF k1 k2] have b:
    "performSearch ?x ''q'' = OpenTab ''https://x.org/''"
    unfolding ux using ninc by auto
  from a b show ?thesis ..
qed

section \<open>Properties of the search box styles\<close>

subsection \<open>The rounding is the rounding of doubles\<close>

lemma bit_length_0: "bit_length 0 = 0"
  by (simp add: bit_length.simps)

lemma bit_length_pos: "0 < n \<Longrightarrow> bit_length n = Suc (bit_length (n div 2))"
  by (subst bit_length.simps) simp

lemma bit_length_bounds:
  "0 < n \<Longrightarrow> 2 ^ (bit_length n - 1) \<le> n \<and> n < 2 ^ bit_length n"
proof (induction n rule: bit_length.induct)
  case (1 n)
  show ?case
  proof (cases "n div 2 = 0")
    case True
    then have "n = 1" using "1.prems" by auto
    then show ?thesis by (simp add: bit_length_pos bit_length_0)
  next
    case False
    then have pos: "0 < n div 2" by simp
    from "1.IH" [OF _ pos] "1.prems"
    have ih: "2 ^ (bit_length (n div 2) - 1) \<le> n div 2" "n div 2 < 2 ^ bit_length (n div 2)"
      by simp_all
    have bl: "bit_length n = Suc (bit_length (n div 2))"
      using "1.prems" by (rule bit_length_pos)
    have blpos: "0 < bit_length (n div 2)" using pos by (simp add: bit_length_pos)
    have "(2::nat) ^ (bit_length n - 1) = 2 * 2 ^ (bit_length (n div 2) - 1)"
      using bl blpos by (cases "bit_length (n div 2)") simp_all
    also have "\<dots> \<le> 2 * (n div 2)" using ih(1) by simp
    also have "\<dots> \<le> n" by simp
    finally have lo: "2 ^ (bit_length n - 1) \<le> n" .
    have "n < 2 * (n div 2) + 2" by arith
    also have "\<dots> \<le> 2 * 2 ^ bit_length (n div 2)" using ih(2) by simp
    finally have hi: "n < 2 ^ bit_length n" using bl by simp
    show ?thesis using lo hi by simp
  qed
qed

lemma exponent_bounds:
  assumes "x \<noteq> 0"
  shows "2 powi (exponent x) \<le> \<bar>x\<bar> \<and> \<bar>x\<bar> < 2 powi (exponent x + 1)"
proof (cases "1 \<le> \<bar>x\<bar>")
  case True
  define n where "n = nat \<lfloor>\<bar>x\<bar>\<rfloor>"
  have n1: "1 \<le> \<lfloor>\<bar>x\<bar>\<rfloor>" using True by simp
  then have npos: "0 < n" by (simp add: n_def)
  have nn: "(of_nat n :: rat) = of_int \<lfloor>\<bar>x\<bar>\<rfloor>"
    using n1 by (simp add: n_def)
  have nx: "of_nat n \<le> \<bar>x\<bar>" "\<bar>x\<bar> < of_nat n + 1"
    unfolding nn by linarith+
  from bit_length_bounds [OF npos]
  have b: "2 ^ (bit_length n - 1) \<le> n" "n < 2 ^ bit_length n" by simp_all
  have blpos: "0 < bit_length n" using npos by (simp add: bit_length_pos)
  have e: "exponent x = int (bit_length n - 1)"
    using True blpos by (simp add: exponent_def n_def)
  have e1: "exponent x + 1 = int (bit_length n)"
    using e blpos by simp
  have r1: "(2::rat) ^ (bit_length n - 1) \<le> of_nat n"
    using b(1) of_nat_le_iff [where ?'a = rat, of "2 ^ (bit_length n - 1)" n] by simp
  have lo: "2 powi (exponent x) \<le> \<bar>x\<bar>"
    unfolding e power_int_of_nat using r1 nx(1) by (rule order_trans)
  have "n + 1 \<le> 2 ^ bit_length n" using b(2) by simp
  then have r2: "(of_nat n :: rat) + 1 \<le> 2 ^ bit_length n"
    using of_nat_le_iff [where ?'a = rat, of "n + 1" "2 ^ bit_length n"] by simp
  have hi: "\<bar>x\<bar> < 2 powi (exponent x + 1)"
    unfolding e1 power_int_of_nat using nx(2) r2 by (rule less_le_trans)
  show ?thesis using lo hi ..
next
  case False
  define y where "y = 1 / \<bar>x\<bar>"
  have xpos: "0 < \<bar>x\<bar>" using assms by simp
  have y1: "1 < y" using False xpos by (simp add: y_def)
  define m where "m = nat (\<lceil>y\<rceil> - 1)"
  have c2: "2 \<le> \<lceil>y\<rceil>" using y1 by (simp add: less_ceiling_iff)
  then have mpos: "0 < m" by (simp add: m_def)
  have mm: "(of_nat m :: rat) = of_int \<lceil>y\<rceil> - 1"
    using c2 by (simp add: m_def)
  have my: "of_nat m < y" "y \<le> of_nat m + 1"
    unfolding mm using ceiling_correct [of y] by simp_all
  from bit_length_bounds [OF mpos]
  have b: "2 ^ (bit_length m - 1) \<le> m" "m < 2 ^ bit_length m" by simp_all
  have blpos: "0 < bit_length m" using mpos by (simp add: bit_length_pos)
  have e: "exponent x = - int (bit_length m)"
    using False by (simp add: exponent_def m_def y_def)
  have r1: "(2::rat) ^ (bit_length m - 1) \<le> of_nat m"
    using b(1) of_nat_le_iff [where ?'a = rat, of "2 ^ (bit_length m - 1)" m] by simp
  have ylo: "2 ^ (bit_length m - 1) < y" using r1 my(1) by (rule le_less_trans)
  have "m + 1 \<le> 2 ^ bit_length m" using b(2) by simp
  then have r2: "(of_nat m :: rat) + 1 \<le> 2 ^ bit_length m"
    using of_nat_le_iff [where ?'a = rat, of "m + 1" "2 ^ bit_length m"] by simp
  have yhi: "y \<le> 2 ^ bit_length m" using my(2) r2 by (rule order_trans)
  have x_eq: "\<bar>x\<bar> = 1 / y" using xpos by (simp add: y_def)
  have ypos: "0 < y" using y1 by simp
  have lo: "2 powi (exponent x) \<le> \<bar>x\<bar>"
  proof -
    have "1 / 2 ^ bit_length m \<le> 1 / y"
      using yhi ypos by (simp add: frac_le)
    then show ?thesis using e x_eq by (simp add: power_int_minus_divide)
  qed
  have hi: "\<bar>x\<bar> < 2 powi (exponent x + 1)"
  proof -
    have "1 / y < 1 / 2 ^ (bit_length m - 1)"
      using ylo by (simp add: frac_less2)
    moreover have "exponent x + 1 = - int (bit_length m - 1)"
      using e blpos by simp
    ultimately show ?thesis using x_eq by (simp add: power_int_minus_divide)
  qed
  show ?thesis using lo hi ..
qed

lemma roundTiesToEven_near: "\<bar>of_int (roundTiesToEven q) - q\<bar> \<le> 1 / 2"
proof -
  have "of_int \<lfloor>q\<rfloor> \<le> q" "q < of_int \<lfloor>q\<rfloor> + 1" by linarith+
  then show ?thesis
    unfolding roundTiesToEven_def Let_def by (auto simp: abs_le_iff)
qed

lemma ulp_pos: "0 < ulp x"
  by (simp add: ulp_def)

lemma nearest_double_near: "\<bar>nearest_double x - x\<bar> \<le> ulp x / 2"
proof (cases "x = 0")
  case True
  then show ?thesis using ulp_pos [of x] by (simp add: nearest_double_def)
next
  case False
  define m :: rat where "m = of_int (roundTiesToEven (x / ulp x))"
  have u: "0 < ulp x" by (rule ulp_pos)
  have "\<bar>m - x / ulp x\<bar> * ulp x \<le> 1 / 2 * ulp x"
    using roundTiesToEven_near [of "x / ulp x"] u
    unfolding m_def by (intro mult_right_mono) simp_all
  moreover have "m * ulp x - x = (m - x / ulp x) * ulp x"
    using u by (simp add: field_simps)
  then have "\<bar>m * ulp x - x\<bar> = \<bar>m - x / ulp x\<bar> * ulp x"
    using u by (simp add: abs_mult)
  ultimately show ?thesis using False by (simp add: nearest_double_def m_def)
qed

lemma exponent_less:
  assumes "x \<noteq> 0" and "\<bar>x\<bar> < 2 powi k"
  shows "exponent x < k"
proof (rule ccontr)
  assume "\<not> exponent x < k"
  then have "k \<le> exponent x" by simp
  then have "(2::rat) powi k \<le> 2 powi (exponent x)" by (rule power_int_increasing) simp
  also have "\<dots> \<le> \<bar>x\<bar>" using exponent_bounds [OF assms(1)] by simp
  finally show False using assms(2) by simp
qed

lemma exponent_ge:
  assumes "x \<noteq> 0" and "2 powi k \<le> \<bar>x\<bar>"
  shows "k \<le> exponent x"
proof (rule ccontr)
  assume "\<not> k \<le> exponent x"
  then have "exponent x + 1 \<le> k" by simp
  then have "(2::rat) powi (exponent x + 1) \<le> 2 powi k" by (rule power_int_increasing) simp
  moreover have "\<bar>x\<bar> < 2 powi (exponent x + 1)" using exponent_bounds [OF assms(1)] by simp
  ultimately show False using assms(2) by simp
qed

lemma ulp_normal:
  assumes "1 / 4 \<le> x"
  shows "ulp x = 2 powi (exponent x) / 2 ^ 52" and "ulp x \<le> x / 2 ^ 52"
    and "x / 2 ^ 53 < ulp x"
proof -
  have x0: "x \<noteq> 0" and ax: "\<bar>x\<bar> = x" using assms by simp_all
  have "(2::rat) powi (- 2) \<le> \<bar>x\<bar>" using assms ax by (simp add: power_int_minus_divide)
  then have e: "- 2 \<le> exponent x" using x0 by (intro exponent_ge)
  then have "max (exponent x) (- 1022) = exponent x" by simp
  then have "ulp x = 2 powi (exponent x - 52)" by (simp add: ulp_def)
  also have "\<dots> = 2 powi (exponent x) / 2 powi 52" by (rule power_int_diff) simp
  finally show u: "ulp x = 2 powi (exponent x) / 2 ^ 52" by simp
  have b: "2 powi (exponent x) \<le> x" "x < 2 powi (exponent x + 1)"
    using exponent_bounds [OF x0] ax by simp_all
  show "ulp x \<le> x / 2 ^ 52" unfolding u using b(1) by (simp add: divide_right_mono)
  have "(2::rat) powi (exponent x + 1) = 2 * 2 powi (exponent x)"
    by (rule power_int_add_1') simp
  then have "x < 2 * 2 powi (exponent x)" using b(2) by simp
  then show "x / 2 ^ 53 < ulp x" unfolding u by (simp add: field_simps)
qed

lemma multiply_double:
  fixes h :: nat and c :: rat
  assumes "1 / 4 \<le> c" and "c < 1 / 2" and "0 < h" and "h < 2 ^ 32"
  shows "multiply (Finite (of_nat h)) (Finite c) = Finite (nearest_double (of_nat h * c))"
    and "\<bar>nearest_double (of_nat h * c) - of_nat h * c\<bar> \<le> 1 / 2 ^ 22"
proof -
  define x :: rat where "x = of_nat h * c"
  have h1: "(1::rat) \<le> of_nat h" using assms(3) by simp
  have h2: "(of_nat h :: rat) < 2 ^ 32"
    using assms(4) of_nat_less_iff [where ?'a = rat, of h "2 ^ 32"] by simp
  have xlo: "1 / 4 \<le> x"
  proof -
    have "1 / 4 \<le> 1 * c" using assms(1) by simp
    also have "\<dots> \<le> of_nat h * c" using h1 assms(1) by (intro mult_right_mono) simp_all
    finally show ?thesis by (simp add: x_def)
  qed
  have xhi: "x < 2 ^ 31"
  proof -
    have "of_nat h * c < of_nat h * (1 / 2)"
      using assms(2,3) by (intro mult_strict_left_mono) simp_all
    also have "\<dots> < 2 ^ 32 * (1 / 2)" using h2 by simp
    finally show ?thesis by (simp add: x_def)
  qed
  have near: "\<bar>nearest_double x - x\<bar> \<le> ulp x / 2" by (rule nearest_double_near)
  have "ulp x / 2 \<le> x / 2 ^ 52 / 2" using ulp_normal(2) [OF xlo] by simp
  also have "\<dots> \<le> 2 ^ 31 / 2 ^ 52 / 2" using xhi by (simp add: divide_right_mono)
  also have "\<dots> = 1 / 2 ^ 22" by simp
  finally have err: "\<bar>nearest_double x - x\<bar> \<le> 1 / 2 ^ 22" using near by simp
  then show "\<bar>nearest_double (of_nat h * c) - of_nat h * c\<bar> \<le> 1 / 2 ^ 22"
    by (simp add: x_def)
  have "\<bar>nearest_double x\<bar> \<le> \<bar>nearest_double x - x\<bar> + \<bar>x\<bar>" by simp
  also have "\<dots> < 1 + 2 ^ 31" using err xhi xlo by simp
  also have "\<dots> < 2 powi 32" by simp
  finally have "\<bar>nearest_double x\<bar> < 2 powi 32" .
  then have "nearest_double x \<noteq> 0 \<Longrightarrow> exponent (nearest_double x) < 32"
    by (rule exponent_less [rotated])
  then have "to_number x = Finite (nearest_double x)"
    by (auto simp: to_number_def Let_def)
  then show "multiply (Finite (of_nat h)) (Finite c) = Finite (nearest_double (of_nat h * c))"
    by (simp add: x_def)
qed

lemma floor_stable:
  fixes p q d :: rat
  assumes "of_int n + d \<le> q + 1 / 2" and "q + 1 / 2 + d \<le> of_int n + 1"
    and "\<bar>p - q\<bar> < d"
  shows "\<lfloor>p + 1 / 2\<rfloor> = n"
proof (rule floor_unique)
  show "of_int n \<le> p + 1 / 2" using assms(1,3) by linarith
  show "p + 1 / 2 < of_int n + 1" using assms(2,3) by linarith
qed

lemma roundTiesToEven_unique:
  assumes "\<bar>y - of_int Q\<bar> < 1 / 2"
  shows "roundTiesToEven y = Q"
proof (cases "of_int Q \<le> y")
  case True
  have f: "\<lfloor>y\<rfloor> = Q"
  proof (rule floor_unique)
    show "of_int Q \<le> y" by (rule True)
    show "y < of_int Q + 1" using assms by linarith
  qed
  have "y - of_int Q < 1 / 2" using assms by linarith
  then show ?thesis by (simp add: roundTiesToEven_def Let_def f)
next
  case False
  have lo: "of_int Q - 1 / 2 < y" using assms by linarith
  have f: "\<lfloor>y\<rfloor> = Q - 1"
  proof (rule floor_unique)
    show "of_int (Q - 1) \<le> y" using lo by simp
    show "y < of_int (Q - 1) + 1" using False by simp
  qed
  have gt: "1 / 2 < y - of_int (Q - 1)" using lo by simp
  then have "\<not> y - of_int (Q - 1) < 1 / 2" by linarith
  then show ?thesis using gt by (simp add: roundTiesToEven_def Let_def f)
qed

lemma div_margin:
  fixes m M :: nat
  assumes "0 < M" and "m mod M \<noteq> 0"
  shows "(of_nat M :: rat) * of_nat (m div M) + 1 \<le> of_nat m"
    and "(of_nat m :: rat) + 1 \<le> of_nat M * of_nat (m div M) + of_nat M"
proof -
  have r1: "1 \<le> m mod M" using assms(2) by simp
  have r2: "m mod M + 1 \<le> M" using assms(1) by (simp add: Suc_leI)
  have "m = M * (m div M) + m mod M" by simp
  then have "(of_nat m :: rat) = of_nat (M * (m div M) + m mod M)" by simp
  then have eq: "(of_nat m :: rat) = of_nat M * of_nat (m div M) + of_nat (m mod M)"
    by (simp only: of_nat_add of_nat_mult)
  have q1: "(1::rat) \<le> of_nat (m mod M)"
    using r1 of_nat_le_iff [where ?'a = rat, of 1 "m mod M"] by simp
  have q2: "(of_nat (m mod M) :: rat) + 1 \<le> of_nat M"
    using r2 of_nat_le_iff [where ?'a = rat, of "m mod M + 1" M] by simp
  show "(of_nat M :: rat) * of_nat (m div M) + 1 \<le> of_nat m"
    unfolding eq using q1 by simp
  show "(of_nat m :: rat) + 1 \<le> of_nat M * of_nat (m div M) + of_nat M"
    unfolding eq using q2 by simp
qed

lemma product_rounds:
  fixes h :: nat and c c' :: rat and n :: int
  assumes "1 / 4 \<le> c'" and "c' < 1 / 2" and "\<bar>c' - c\<bar> \<le> 1 / 2 ^ 54" and "h < 2 ^ 32"
    and "of_int n + 1 / 64 \<le> of_nat h * c + 1 / 2"
    and "of_nat h * c + 1 / 2 + 1 / 64 \<le> of_int n + 1"
  shows "Math_round (multiply (Finite (of_nat h)) (Finite c')) = Finite (of_int n)"
proof (cases "h = 0")
  case True
  have "\<lfloor>(0::rat) + 1 / 2\<rfloor> = n"
    using assms(5,6) True by (intro floor_stable [where d = "1 / 64" and q = 0]) simp_all
  moreover have half: "\<lfloor>(1::rat) / 2\<rfloor> = 0" by (rule floor_unique) simp_all
  ultimately have "n = 0" by simp
  then show ?thesis using True half by (simp add: to_number_def nearest_double_def)
next
  case False
  then have pos: "0 < h" by simp
  define p where "p = nearest_double (of_nat h * c')"
  have m: "multiply (Finite (of_nat h)) (Finite c') = Finite p"
    unfolding p_def using assms(1,2) pos assms(4) by (rule multiply_double(1))
  have e1: "\<bar>p - of_nat h * c'\<bar> \<le> 1 / 2 ^ 22"
    unfolding p_def using assms(1,2) pos assms(4) by (rule multiply_double(2))
  have h2: "(of_nat h :: rat) \<le> 2 ^ 32"
    using assms(4) of_nat_le_iff [where ?'a = rat, of h "2 ^ 32"] by simp
  have "\<bar>of_nat h * c' - of_nat h * c\<bar> = of_nat h * \<bar>c' - c\<bar>"
    by (simp add: abs_mult right_diff_distrib [symmetric])
  also have "\<dots> \<le> 2 ^ 32 * (1 / 2 ^ 54)"
    using h2 assms(3) by (intro mult_mono) simp_all
  also have "\<dots> = 1 / 2 ^ 22" by simp
  finally have e2: "\<bar>of_nat h * c' - of_nat h * c\<bar> \<le> 1 / 2 ^ 22" .
  have "\<bar>p - of_nat h * c\<bar> \<le> \<bar>p - of_nat h * c'\<bar> + \<bar>of_nat h * c' - of_nat h * c\<bar>"
    by simp
  also have "\<dots> \<le> 1 / 2 ^ 22 + 1 / 2 ^ 22" using e1 e2 by (rule add_mono)
  also have "\<dots> < 1 / 64" by simp
  finally have "\<bar>p - of_nat h * c\<bar> < 1 / 64" .
  with assms(5,6) have "\<lfloor>p + 1 / 2\<rfloor> = n" by (rule floor_stable)
  then show ?thesis using m by simp
qed

lemma round_margin:
  fixes q :: rat
  assumes "of_int n + d \<le> q + 1 / 2" and "q + 1 / 2 + d \<le> of_int n + 1" and "0 < d"
  shows "round q = n"
  unfolding round_def using assms by (intro floor_stable [where d = d and q = q]) simp_all

subsection \<open>The derived values\<close>

lemma number_literals:
  "to_number (2 / 5) = Finite (3602879701896397 / 2 ^ 53)"
  "to_number (3 / 10) = Finite (5404319552844595 / 2 ^ 54)"
  "to_number (8 / 25) = Finite (5764607523034235 / 2 ^ 54)"
  by code_simp+

lemma derived_values_at_50:
  "Math_round (multiply (Finite 50) (to_number (2 / 5))) = Finite 20"
  "Math_round (multiply (Finite 50) (to_number (3 / 10))) = Finite 15"
  "Math_round (multiply (Finite 50) (to_number (8 / 25))) = Finite 16"
  by code_simp+

subsection \<open>Whole-number heights\<close>

text \<open>
  For a whole-number height below \<open>2^32\<close> the product of doubles lies within \<open>2^-21\<close>
  of the exact product, which is either a tie, and then the product of doubles is the
  tie itself, or at least \<open>1/50\<close> away from one: both round to the same integer.
\<close>

lemma tie_product:
  fixes h :: nat
  assumes "(3 * h + 5) mod 10 = 0" and "h < 2 ^ 32"
  shows "multiply (Finite (of_nat h)) (Finite (5404319552844595 / 2 ^ 54)) =
           Finite (of_nat h * (3 / 10))"
proof -
  define c :: rat where "c = 5404319552844595 / 2 ^ 54"
  define x :: rat where "x = of_nat h * c"
  define q :: rat where "q = of_nat h * (3 / 10)"
  define n where "n = (3 * h + 5) div 10"
  have pos: "0 < h" using assms(1) by (cases "h = 0") simp_all
  have c_lo: "1 / 4 \<le> c" and c_hi: "c < 1 / 2" by (simp_all add: c_def)
  have c_eq: "3 / 10 - c = 1 / (5 * 2 ^ 54)" by (simp add: c_def)
  have h1: "(1::rat) \<le> of_nat h" using pos by simp
  have xq: "q - x = of_nat h * (1 / (5 * 2 ^ 54))"
    unfolding q_def x_def c_eq [symmetric] by (simp add: algebra_simps)
  have x_lo: "of_nat h * (1 / 4) \<le> x"
    unfolding x_def using c_lo by (intro mult_left_mono) simp_all
  then have x14: "1 / 4 \<le> x" using h1 by simp
  then have x0: "x \<noteq> 0" and xpos: "0 < x" by simp_all
  have "x < of_nat h * (1 / 2)"
    unfolding x_def using c_hi pos by (intro mult_strict_left_mono) simp_all
  moreover have "(of_nat h :: rat) < 2 ^ 32"
    using assms(2) of_nat_less_iff [where ?'a = rat, of h "2 ^ 32"] by simp
  ultimately have "x < 2 ^ 31" by simp
  then have "\<bar>x\<bar> < 2 powi 31" using xpos by simp
  then have e_hi: "exponent x < 31" using x0 by (intro exponent_less)
  define k where "k = nat (52 - exponent x)"
  have k_int: "exponent x = 52 - int k" using e_hi by (simp add: k_def)
  have k1: "1 \<le> k" using e_hi by (simp add: k_def)
  have "(2::rat) powi (exponent x) = 2 powi 52 / 2 powi (int k)"
    unfolding k_int by (rule power_int_diff) simp
  then have "(2::rat) powi (exponent x) = 2 ^ 52 / 2 ^ k" by simp
  then have u: "ulp x = 1 / 2 ^ k" using ulp_normal(1) [OF x14] by simp
  have pow: "(2::rat) ^ k = 2 * 2 ^ (k - 1)"
    using k1 by (cases k) simp_all
  have "3 * h + 5 = 10 * n" using assms(1) unfolding n_def by presburger
  then have "(of_nat (3 * h + 5) :: rat) = of_nat (10 * n)" by simp
  then have "3 * (of_nat h :: rat) + 5 = 10 * of_nat n"
    by (simp only: of_nat_add of_nat_mult of_nat_numeral)
  then have q2: "2 * q = 2 * of_nat n - 1" by (simp add: q_def)
  define Q :: int where "Q = (2 * int n - 1) * 2 ^ (k - 1)"
  have Q: "(of_int Q :: rat) = q * 2 ^ k"
  proof -
    have "(of_int Q :: rat) = (2 * of_nat n - 1) * 2 ^ (k - 1)" by (simp add: Q_def)
    also have "\<dots> = 2 * q * 2 ^ (k - 1)" by (simp only: q2)
    also have "\<dots> = q * 2 ^ k" by (simp add: pow)
    finally show ?thesis .
  qed
  have small: "(q - x) * 2 ^ k < 1 / 2"
  proof -
    have "x / 2 ^ 53 < 1 / 2 ^ k" using ulp_normal(3) [OF x14] u by simp
    then have "x * 2 ^ k < 2 ^ 53" by (simp add: field_simps)
    moreover have "of_nat h * (1 / 4) * 2 ^ k \<le> x * 2 ^ k"
      using x_lo by (intro mult_right_mono) simp_all
    ultimately have lt: "of_nat h * (1 / 4) * (2::rat) ^ k < 2 ^ 53" by (rule le_less_trans [rotated])
    have "of_nat h * (2::rat) ^ k = 4 * (of_nat h * (1 / 4) * 2 ^ k)" by simp
    also have "\<dots> < 4 * 2 ^ 53" using lt by (intro mult_strict_left_mono) simp_all
    also have "\<dots> = 2 ^ 55" by simp
    finally have hk: "of_nat h * (2::rat) ^ k < 2 ^ 55" .
    have "(q - x) * 2 ^ k = of_nat h * 2 ^ k / (5 * 2 ^ 54)" by (simp add: xq)
    also have "\<dots> < 2 ^ 55 / (5 * 2 ^ 54)" using hk by (intro divide_strict_right_mono) simp_all
    also have "\<dots> < 1 / 2" by simp
    finally show ?thesis .
  qed
  have nonneg: "0 \<le> (q - x) * 2 ^ k" by (simp add: xq)
  have "x / ulp x - of_int Q = - ((q - x) * 2 ^ k)"
    by (simp add: u Q algebra_simps)
  then have "\<bar>x / ulp x - of_int Q\<bar> < 1 / 2" using small nonneg by simp
  then have "roundTiesToEven (x / ulp x) = Q" by (rule roundTiesToEven_unique)
  then have "nearest_double x = of_int Q * ulp x" using x0 by (simp add: nearest_double_def)
  also have "\<dots> = q" by (simp add: Q u)
  finally have "nearest_double x = q" .
  moreover have "multiply (Finite (of_nat h)) (Finite c) = Finite (nearest_double x)"
    unfolding x_def using c_lo c_hi pos assms(2) by (rule multiply_double(1))
  ultimately show ?thesis by (simp add: c_def q_def)
qed

lemma iconSize_exact:
  fixes h :: nat
  assumes "h < 2 ^ 32"
  shows "Math_round (multiply (Finite (of_nat h)) (to_number (2 / 5))) =
           Finite (of_int (round (of_nat h * (2 / 5) :: rat)))"
proof -
  define m where "m = 4 * h + 5"
  have odd: "m mod 10 \<noteq> 0" unfolding m_def by presburger
  have m_rat: "(of_nat m :: rat) = 4 * of_nat h + 5" by (simp add: m_def)
  have a0: "10 * (of_nat (m div 10) :: rat) + 1 \<le> of_nat m"
    and b0: "(of_nat m :: rat) + 1 \<le> 10 * of_nat (m div 10) + 10"
    using div_margin [of 10 m] odd by simp_all
  have a: "(of_nat (m div 10) :: rat) + 1 / 10 \<le> of_nat h * (2 / 5) + 1 / 2"
    using a0 m_rat by simp
  have b: "(of_nat h :: rat) * (2 / 5) + 1 / 2 + 1 / 10 \<le> of_nat (m div 10) + 1"
    using b0 m_rat by simp
  have r: "round (of_nat h * (2 / 5) :: rat) = int (m div 10)"
    using a b by (intro round_margin [where d = "1 / 10"]) simp_all
  have "Math_round (multiply (Finite (of_nat h)) (Finite (3602879701896397 / 2 ^ 53))) =
      Finite (of_int (int (m div 10)))"
    using a b assms by (intro product_rounds [where c = "2 / 5"]) simp_all
  then show ?thesis by (simp only: r number_literals)
qed

lemma fontSize_exact:
  fixes h :: nat
  assumes "h < 2 ^ 32"
  shows "Math_round (multiply (Finite (of_nat h)) (to_number (8 / 25))) =
           Finite (of_int (round (of_nat h * (8 / 25) :: rat)))"
proof -
  define m where "m = 16 * h + 25"
  have odd: "m mod 50 \<noteq> 0" unfolding m_def by presburger
  have m_rat: "(of_nat m :: rat) = 16 * of_nat h + 25" by (simp add: m_def)
  have a0: "50 * (of_nat (m div 50) :: rat) + 1 \<le> of_nat m"
    and b0: "(of_nat m :: rat) + 1 \<le> 50 * of_nat (m div 50) + 50"
    using div_margin [of 50 m] odd by simp_all
  have a: "(of_nat (m div 50) :: rat) + 1 / 50 \<le> of_nat h * (8 / 25) + 1 / 2"
    using a0 m_rat by simp
  have b: "(of_nat h :: rat) * (8 / 25) + 1 / 2 + 1 / 50 \<le> of_nat (m div 50) + 1"
    using b0 m_rat by simp
  have r: "round (of_nat h * (8 / 25) :: rat) = int (m div 50)"
    using a b by (intro round_margin [where d = "1 / 50"]) simp_all
  have "Math_round (multiply (Finite (of_nat h)) (Finite (5764607523034235 / 2 ^ 54))) =
      Finite (of_int (int (m div 50)))"
    using a b assms by (intro product_rounds [where c = "8 / 25"]) simp_all
  then show ?thesis by (simp only: r number_literals)
qed

lemma iconMargin_exact:
  fixes h :: nat
  assumes "h < 2 ^ 32"
  shows "Math_round (multiply (Finite (of_nat h)) (to_number (3 / 10))) =
           Finite (of_int (round (of_nat h * (3 / 10) :: rat)))"
proof (cases "(3 * h + 5) mod 10 = 0")
  case True
  have "Math_round (multiply (Finite (of_nat h)) (Finite (5404319552844595 / 2 ^ 54))) =
      Finite (of_int \<lfloor>of_nat h * (3 / 10) + 1 / 2 :: rat\<rfloor>)"
    by (simp only: tie_product [OF True assms] Math_round.simps)
  then show ?thesis by (simp only: round_def number_literals)
next
  case False
  define m where "m = 3 * h + 5"
  have nz: "m mod 10 \<noteq> 0" using False by (simp add: m_def)
  have m_rat: "(of_nat m :: rat) = 3 * of_nat h + 5" by (simp add: m_def)
  have a0: "10 * (of_nat (m div 10) :: rat) + 1 \<le> of_nat m"
    and b0: "(of_nat m :: rat) + 1 \<le> 10 * of_nat (m div 10) + 10"
    using div_margin [of 10 m] nz by simp_all
  have a: "(of_nat (m div 10) :: rat) + 1 / 10 \<le> of_nat h * (3 / 10) + 1 / 2"
    using a0 m_rat by simp
  have b: "(of_nat h :: rat) * (3 / 10) + 1 / 2 + 1 / 10 \<le> of_nat (m div 10) + 1"
    using b0 m_rat by simp
  have r: "round (of_nat h * (3 / 10) :: rat) = int (m div 10)"
    using a b by (intro round_margin [where d = "1 / 10"]) simp_all
  have "Math_round (multiply (Finite (of_nat h)) (Finite (5404319552844595 / 2 ^ 54))) =
      Finite (of_int (int (m div 10)))"
    using a b assms by (intro product_rounds [where c = "3 / 10"]) simp_all
  then show ?thesis by (simp only: r number_literals)
qed

lemma Math_round_nearest:
  "\<exists>n. Math_round (Finite p) = Finite (of_int n) \<and> of_int n - 1 / 2 \<le> p \<and>
     p < of_int n + 1 / 2"
proof (intro exI conjI)
  show "Math_round (Finite p) = Finite (of_int \<lfloor>p + 1 / 2\<rfloor>)" by simp
  have "of_int \<lfloor>p + 1 / 2\<rfloor> \<le> p + 1 / 2" by (rule of_int_floor_le)
  then show "of_int \<lfloor>p + 1 / 2\<rfloor> - 1 / 2 \<le> p" by linarith
  have "p + 1 / 2 < of_int \<lfloor>p + 1 / 2\<rfloor> + 1" by linarith
  then show "p < of_int \<lfloor>p + 1 / 2\<rfloor> + 1 / 2" by linarith
qed

lemma nearest_unique:
  fixes p :: rat
  assumes "of_int n - 1 / 2 \<le> p" and "p < of_int n + 1 / 2"
    and "of_int k - 1 / 2 \<le> p" and "p < of_int k + 1 / 2"
  shows "n = k"
proof -
  have "\<lfloor>p + 1 / 2\<rfloor> = n"
  proof (rule floor_unique)
    show "of_int n \<le> p + 1 / 2" using assms(1) by simp
    show "p + 1 / 2 < of_int n + 1" using assms(2) by simp
  qed
  moreover have "\<lfloor>p + 1 / 2\<rfloor> = k"
  proof (rule floor_unique)
    show "of_int k \<le> p + 1 / 2" using assms(3) by simp
    show "p + 1 / 2 < of_int k + 1" using assms(4) by simp
  qed
  ultimately show ?thesis by simp
qed

text \<open>
  C8. With the three elements on the page, the styles that \<open>updateSearchHeight\<close>
  writes are functions of the height alone: the icon size is \<open>round(height * 0.4)\<close>,
  the icon margin \<open>round(height * 0.3)\<close> and the font size \<open>round(height * 0.32)\<close>, in
  the arithmetic of doubles. Whenever the product is finite the style is the integer
  nearest to it, a tie going up. For a whole-number height below \<open>2^32\<close> the three
  styles are the exact values \<open>height * 2/5\<close>, \<open>height * 3/10\<close> and \<open>height * 8/25\<close>
  rounded in the same way. For the height 50 they are 20, 15 and 16.
\<close>

theorem updateSearchHeight_derived_values:
  "updateSearchHeight
     \<lparr>searchContainer = True, searchEngineIcon = True, searchInput = True\<rparr> height
   = \<lparr>containerHeight = Some height,
      iconSize = Some (Math_round (multiply height (to_number (2 / 5)))),
      iconMargin = Some (Math_round (multiply height (to_number (3 / 10)))),
      fontSize = Some (Math_round (multiply height (to_number (8 / 25))))\<rparr> \<and>
   (\<forall>p. multiply height (to_number (2 / 5)) = Finite p \<longrightarrow>
      (\<exists>n. iconSize (updateSearchHeight
                \<lparr>searchContainer = True, searchEngineIcon = True, searchInput = True\<rparr>
                height) = Some (Finite (of_int n)) \<and>
           of_int n - 1 / 2 \<le> p \<and> p < of_int n + 1 / 2)) \<and>
   (\<forall>p. multiply height (to_number (3 / 10)) = Finite p \<longrightarrow>
      (\<exists>n. iconMargin (updateSearchHeight
                \<lparr>searchContainer = True, searchEngineIcon = True, searchInput = True\<rparr>
                height) = Some (Finite (of_int n)) \<and>
           of_int n - 1 / 2 \<le> p \<and> p < of_int n + 1 / 2)) \<and>
   (\<forall>p. multiply height (to_number (8 / 25)) = Finite p \<longrightarrow>
      (\<exists>n. fontSize (updateSearchHeight
                \<lparr>searchContainer = True, searchEngineIcon = True, searchInput = True\<rparr>
                height) = Some (Finite (of_int n)) \<and>
           of_int n - 1 / 2 \<le> p \<and> p < of_int n + 1 / 2)) \<and>
   (h < 2 ^ 32 \<longrightarrow>
      updateSearchHeight
        \<lparr>searchContainer = True, searchEngineIcon = True, searchInput = True\<rparr>
        (Finite (of_nat h))
      = \<lparr>containerHeight = Some (Finite (of_nat h)),
         iconSize = Some (Finite (of_int (round (of_nat h * (2 / 5) :: rat)))),
         iconMargin = Some (Finite (of_int (round (of_nat h * (3 / 10) :: rat)))),
         fontSize = Some (Finite (of_int (round (of_nat h * (8 / 25) :: rat))))\<rparr>) \<and>
   updateSearchHeight
     \<lparr>searchContainer = True, searchEngineIcon = True, searchInput = True\<rparr> (Finite 50)
   = \<lparr>containerHeight = Some (Finite 50), iconSize = Some (Finite 20),
      iconMargin = Some (Finite 15), fontSize = Some (Finite 16)\<rparr>"
proof (intro conjI allI impI)
  let ?page = "\<lparr>searchContainer = True, searchEngineIcon = True, searchInput = True\<rparr>"
  show "updateSearchHeight ?page height
      = \<lparr>containerHeight = Some height,
         iconSize = Some (Math_round (multiply height (to_number (2 / 5)))),
         iconMargin = Some (Math_round (multiply height (to_number (3 / 10)))),
         fontSize = Some (Math_round (multiply height (to_number (8 / 25))))\<rparr>"
    by (simp add: updateSearchHeight_def)
  show "\<exists>n. iconSize (updateSearchHeight ?page height) = Some (Finite (of_int n)) \<and>
      of_int n - 1 / 2 \<le> p \<and> p < of_int n + 1 / 2"
    if "multiply height (to_number (2 / 5)) = Finite p" for p
    using Math_round_nearest [of p] that by (simp add: updateSearchHeight_def)
  show "\<exists>n. iconMargin (updateSearchHeight ?page height) = Some (Finite (of_int n)) \<and>
      of_int n - 1 / 2 \<le> p \<and> p < of_int n + 1 / 2"
    if "multiply height (to_number (3 / 10)) = Finite p" for p
    using Math_round_nearest [of p] that by (simp add: updateSearchHeight_def)
  show "\<exists>n. fontSize (updateSearchHeight ?page height) = Some (Finite (of_int n)) \<and>
      of_int n - 1 / 2 \<le> p \<and> p < of_int n + 1 / 2"
    if "multiply height (to_number (8 / 25)) = Finite p" for p
    using Math_round_nearest [of p] that by (simp add: updateSearchHeight_def)
  show "updateSearchHeight ?page (Finite (of_nat h))
      = \<lparr>containerHeight = Some (Finite (of_nat h)),
         iconSize = Some (Finite (of_int (round (of_nat h * (2 / 5) :: rat)))),
         iconMargin = Some (Finite (of_int (round (of_nat h * (3 / 10) :: rat)))),
         fontSize = Some (Finite (of_int (round (of_nat h * (8 / 25) :: rat))))\<rparr>"
    if "h < 2 ^ 32"
    by (simp add: updateSearchHeight_def iconSize_exact [OF that] iconMargin_exact [OF that]
        fontSize_exact [OF that])
  show "updateSearchHeight ?page (Finite 50)
      = \<lparr>containerHeight = Some (Finite 50), iconSize = Some (Finite 20),
         iconMargin = Some (Finite 15), fontSize = Some (Finite 16)\<rparr>"
    by (simp add: updateSearchHeight_def derived_values_at_50)
qed

theorem updateSearchHeight_derived_values_witness:
  "multiply (Finite (13 / 2)) (to_number (2 / 5))
     = Finite (5854679515581645 / 2251799813685248) \<and>
   multiply (Finite (13 / 2)) (to_number (3 / 10))
     = Finite (8782019273372467 / 4503599627370496) \<and>
   multiply (Finite (13 / 2)) (to_number (8 / 25))
     = Finite (1170935903116329 / 562949953421312) \<and>
   iconSize (updateSearchHeight
     \<lparr>searchContainer = True, searchEngineIcon = True, searchInput = True\<rparr>
     (Finite (13 / 2))) = Some (Finite 3) \<and>
   iconMargin (updateSearchHeight
     \<lparr>searchContainer = True, searchEngineIcon = True, searchInput = True\<rparr>
     (Finite (13 / 2))) = Some (Finite 2) \<and>
   fontSize (updateSearchHeight
     \<lparr>searchContainer = True, searchEngineIcon = True, searchInput = True\<rparr>
     (Finite (13 / 2))) = Some (Finite 2) \<and>
   updateSearchHeight
     \<lparr>searchContainer = True, searchEngineIcon = True, searchInput = True\<rparr> (Finite 52)
   = \<lparr>containerHeight = Some (Finite 52), iconSize = Some (Finite 21),
      iconMargin = Some (Finite 16), fontSize = Some (Finite 17)\<rparr> \<and>
   updateSearchHeight
     \<lparr>searchContainer = True, searchEngineIcon = True, searchInput = True\<rparr> (Finite 5)
   = \<lparr>containerHeight = Some (Finite 5), iconSize = Some (Finite 2),
      iconMargin = Some (Finite 2), fontSize = Some (Finite 2)\<rparr> \<and>
   updateSearchHeight
     \<lparr>searchContainer = True, searchEngineIcon = True, searchInput = True\<rparr> (Finite 7)
   = \<lparr>containerHeight = Some (Finite 7), iconSize = Some (Finite 3),
      iconMargin = Some (Finite 2), fontSize = Some (Finite 2)\<rparr>"
proof -
  let ?page = "\<lparr>searchContainer = True, searchEngineIcon = True, searchInput = True\<rparr>"
  note t = updateSearchHeight_derived_values [where height = "Finite (13 / 2)"]
  have p1: "multiply (Finite (13 / 2)) (to_number (2 / 5))
      = Finite (5854679515581645 / 2251799813685248)"
    by code_simp
  have p2: "multiply (Finite (13 / 2)) (to_number (3 / 10))
      = Finite (8782019273372467 / 4503599627370496)"
    by code_simp
  have p3: "multiply (Finite (13 / 2)) (to_number (8 / 25))
      = Finite (1170935903116329 / 562949953421312)"
    by code_simp
  from t [THEN conjunct2, THEN conjunct1, THEN spec, THEN mp, OF p1]
  obtain n1 where n1: "iconSize (updateSearchHeight ?page (Finite (13 / 2)))
      = Some (Finite (of_int n1))"
    and lo_n1: "of_int n1 - 1 / 2 \<le> (5854679515581645 / 2251799813685248 :: rat)"
    and hi_n1: "(5854679515581645 / 2251799813685248 :: rat) < of_int n1 + 1 / 2"
    by blast
  from lo_n1 hi_n1 have "n1 = 3"
    by (rule nearest_unique) simp_all
  then have a: "iconSize (updateSearchHeight ?page (Finite (13 / 2))) = Some (Finite 3)"
    using n1 by simp
  from t [THEN conjunct2, THEN conjunct2, THEN conjunct1, THEN spec, THEN mp, OF p2]
  obtain n2 where n2: "iconMargin (updateSearchHeight ?page (Finite (13 / 2)))
      = Some (Finite (of_int n2))"
    and lo_n2: "of_int n2 - 1 / 2 \<le> (8782019273372467 / 4503599627370496 :: rat)"
    and hi_n2: "(8782019273372467 / 4503599627370496 :: rat) < of_int n2 + 1 / 2"
    by blast
  from lo_n2 hi_n2 have "n2 = 2"
    by (rule nearest_unique) simp_all
  then have b: "iconMargin (updateSearchHeight ?page (Finite (13 / 2))) = Some (Finite 2)"
    using n2 by simp
  from t [THEN conjunct2, THEN conjunct2, THEN conjunct2, THEN conjunct1, THEN spec,
      THEN mp, OF p3]
  obtain n3 where n3: "fontSize (updateSearchHeight ?page (Finite (13 / 2)))
      = Some (Finite (of_int n3))"
    and lo_n3: "of_int n3 - 1 / 2 \<le> (1170935903116329 / 562949953421312 :: rat)"
    and hi_n3: "(1170935903116329 / 562949953421312 :: rat) < of_int n3 + 1 / 2"
    by blast
  from lo_n3 hi_n3 have "n3 = 2"
    by (rule nearest_unique) simp_all
  then have c: "fontSize (updateSearchHeight ?page (Finite (13 / 2))) = Some (Finite 2)"
    using n3 by simp
  note whole = updateSearchHeight_derived_values [THEN conjunct2, THEN conjunct2,
      THEN conjunct2, THEN conjunct2, THEN conjunct1, THEN mp]
  have r52: "round (of_nat 52 * (2 / 5) :: rat) = 21" "round (of_nat 52 * (3 / 10) :: rat) = 16"
    "round (of_nat 52 * (8 / 25) :: rat) = 17"
    by (rule round_unique; simp)+
  have d: "updateSearchHeight ?page (Finite 52)
      = \<lparr>containerHeight = Some (Finite 52), iconSize = Some (Finite 21),
         iconMargin = Some (Finite 16), fontSize = Some (Finite 17)\<rparr>"
    using whole [of 52] unfolding r52 by simp
  have r5: "round (of_nat 5 * (2 / 5) :: rat) = 2" "round (of_nat 5 * (3 / 10) :: rat) = 2"
    "round (of_nat 5 * (8 / 25) :: rat) = 2"
    by (rule round_unique; simp)+
  have e: "updateSearchHeight ?page (Finite 5)
      = \<lparr>containerHeight = Some (Finite 5), iconSize = Some (Finite 2),
         iconMargin = Some (Finite 2), fontSize = Some (Finite 2)\<rparr>"
    using whole [of 5] unfolding r5 by simp
  have r7: "round (of_nat 7 * (2 / 5) :: rat) = 3" "round (of_nat 7 * (3 / 10) :: rat) = 2"
    "round (of_nat 7 * (8 / 25) :: rat) = 2"
    by (rule round_unique; simp)+
  have f: "updateSearchHeight ?page (Finite 7)
      = \<lparr>containerHeight = Some (Finite 7), iconSize = Some (Finite 3),
         iconMargin = Some (Finite 2), fontSize = Some (Finite 2)\<rparr>"
    using whole [of 7] unfolding r7 by simp
  from p1 p2 p3 a b c d e f show ?thesis by (intro conjI)
qed

end
